theory Spec2Isabelle
  imports Main "HOL-Library.Word"
begin

section \<open>Data model\<close>

text \<open>
  Go's \<open>int\<close>, \<open>uint\<close> and \<open>int64\<close> are 64-bit words (a 64-bit platform); a signed
  value is read with \<open>sint\<close>, so \<open>x <= 0\<close> of the source is \<open>sint x \<le> 0\<close>, and
  arithmetic wraps as the source's does.
\<close>

type_synonym go_int = "64 word"
type_synonym go_uint = "64 word"
type_synonym go_int64 = "64 word"

text \<open>
  A value of Go's \<open>interface{}\<close>, by dynamic type. The type switch of
  \<open>applyQueryConditions\<close> tells \<open>string\<close>, \<open>int\<close>, \<open>float64\<close>, \<open>bool\<close>,
  \<open>[]interface{}\<close>, \<open>[]string\<close> and \<open>map[string]interface{}\<close> apart; every other
  dynamic type takes no branch there. A float64 is its bit pattern. A Go map is the list of
  its entries in the order in which the runtime iterates over it.
\<close>

datatype val =
    VNil
  | VString string
  | VInt go_int
  | VFloat64 "64 word"
  | VBool bool
  | VSlice "val list"
  | VStrings "string list"
  | VMap "(string \<times> val) list"
  | VIntMap "(string \<times> go_int) list"
  | VUint go_uint
  | VOther string

record JoinConfig =
  Table :: string
  On :: string
  JoinType :: string

record Filter =
  Filterable :: "string list"
  QueryStr :: string
  Filters :: "(string \<times> val) list"
  Sortable :: "string list"
  Sort :: string
  Page :: go_int
  PageSize :: go_int
  Unscoped :: bool
  Joins :: "JoinConfig list"
  sqlRecords :: "string list"
  Debug :: bool
  finalSQL :: string

text \<open>
  The query plan: a \<open>*gorm.DB\<close> is the sequence of builder calls made on it, in the order
  in which they were made. \<open>CWhere q args\<close> is \<open>db.Where(q, args...)\<close>.
\<close>

datatype clause =
    CModel
  | CUnscoped
  | CJoins string
  | CWhere string "val list"
  | COrder string
  | COffset go_int
  | CLimit go_int

type_synonym DB = "clause list"

text \<open>
  Library functions that the package calls and that are no part of it:
  \<open>json.Unmarshal\<close> into a \<open>map[string]interface{}\<close> (\<open>None\<close> when it returns an error),
  the \<open>%v\<close> verb of \<open>fmt.Sprintf\<close>, and gorm's dry-run rendering of a plan
  (\<open>db.Session(DryRun).ToSQL(Find)\<close>), which executes nothing.
\<close>

record env =
  json_Unmarshal :: "string \<Rightarrow> (string \<times> val) list option"
  fmt_v :: "val \<Rightarrow> string"
  ToSQL :: "DB \<Rightarrow> string"

section \<open>The functions of package strings that the code uses\<close>

fun HasPrefix :: "string \<Rightarrow> string \<Rightarrow> bool" where
  "HasPrefix s [] = True"
| "HasPrefix [] (p # ps) = False"
| "HasPrefix (c # s) (p # ps) = (c = p \<and> HasPrefix s ps)"

definition TrimPrefix :: "string \<Rightarrow> string \<Rightarrow> string" where
  "TrimPrefix s p = (if HasPrefix s p then drop (length p) s else s)"

text \<open>\<open>strings.Split(s, sep)\<close> for a separator of one byte: \<open>n\<close> separators give \<open>n + 1\<close> parts.\<close>

fun Split :: "string \<Rightarrow> char \<Rightarrow> string list" where
  "Split [] sep = [[]]"
| "Split (c # s) sep =
     (if c = sep then [] # Split s sep
      else (case Split s sep of [] \<Rightarrow> [[c]] | t # ts \<Rightarrow> (c # t) # ts))"

text \<open>
  \<open>strings.ToLower\<close> on the bytes below 0x80. The source compares the result with
  \<open>"left"\<close> only, and no rune outside ASCII has one of l, e, f, t as its lower case.
\<close>

definition lower_byte :: "char \<Rightarrow> char" where
  "lower_byte c =
     (let n = (of_char c :: nat) in if 65 \<le> n \<and> n \<le> 90 then char_of (n + 32) else c)"

definition ToLower :: "string \<Rightarrow> string" where
  "ToLower s = map lower_byte s"

text \<open>
  \<open>strings.TrimSpace\<close> removes the runes of \<open>unicode.IsSpace\<close> from both ends. A Go string
  is a byte sequence in UTF-8; these are the encodings of the white-space runes
  (U+0009..U+000D, U+0020, U+0085, U+00A0, U+1680, U+2000..U+200A, U+2028, U+2029, U+202F,
  U+205F, U+3000).
\<close>

definition space_runes :: "string list" where
  "space_runes =
     [[CHR 0x09], [CHR 0x0A], [CHR 0x0B], [CHR 0x0C], [CHR 0x0D], [CHR 0x20],
      [CHR 0xC2, CHR 0x85], [CHR 0xC2, CHR 0xA0],
      [CHR 0xE1, CHR 0x9A, CHR 0x80],
      [CHR 0xE2, CHR 0x80, CHR 0x80], [CHR 0xE2, CHR 0x80, CHR 0x81],
      [CHR 0xE2, CHR 0x80, CHR 0x82], [CHR 0xE2, CHR 0x80, CHR 0x83],
      [CHR 0xE2, CHR 0x80, CHR 0x84], [CHR 0xE2, CHR 0x80, CHR 0x85],
      [CHR 0xE2, CHR 0x80, CHR 0x86], [CHR 0xE2, CHR 0x80, CHR 0x87],
      [CHR 0xE2, CHR 0x80, CHR 0x88], [CHR 0xE2, CHR 0x80, CHR 0x89],
      [CHR 0xE2, CHR 0x80, CHR 0x8A],
      [CHR 0xE2, CHR 0x80, CHR 0xA8], [CHR 0xE2, CHR 0x80, CHR 0xA9],
      [CHR 0xE2, CHR 0x80, CHR 0xAF],
      [CHR 0xE2, CHR 0x81, CHR 0x9F],
      [CHR 0xE3, CHR 0x80, CHR 0x80]]"

text \<open>
  \<open>strip_runes ws s\<close> drops from the front of \<open>s\<close> every leading occurrence of a sequence
  of \<open>ws\<close>; an empty sequence in \<open>ws\<close> strips nothing.
\<close>

function strip_runes :: "string list \<Rightarrow> string \<Rightarrow> string" where
  "strip_runes ws s =
     (case find (\<lambda>w. w \<noteq> [] \<and> HasPrefix s w) ws of
        None \<Rightarrow> s
      | Some w \<Rightarrow> strip_runes ws (drop (length w) s))"
  by pat_completeness auto
termination
proof (relation "measure (\<lambda>(ws, s). length s)")
  show "wf (measure (\<lambda>(ws, s). length s))" by simp
next
  fix ws :: "string list" and s w :: string
  assume "find (\<lambda>w. w \<noteq> [] \<and> HasPrefix s w) ws = Some w"
  then have w: "w \<noteq> []" and p: "HasPrefix s w"
    by (auto simp: find_Some_iff)
  from w p have "s \<noteq> []" by (cases s; cases w) auto
  with w show "((ws, drop (length w) s), (ws, s)) \<in> measure (\<lambda>(ws, s). length s)"
    by simp
qed

definition TrimLeftSpace :: "string \<Rightarrow> string" where
  "TrimLeftSpace s = strip_runes space_runes s"

definition TrimRightSpace :: "string \<Rightarrow> string" where
  "TrimRightSpace s = rev (strip_runes (map rev space_runes) (rev s))"

definition TrimSpace :: "string \<Rightarrow> string" where
  "TrimSpace s = TrimRightSpace (TrimLeftSpace s)"

section \<open>query.go: the Filter's methods\<close>

text \<open>
  A method on \<open>*Filter\<close> that changes the Filter returns the changed Filter; a method that
  also extends the plan takes and returns the pair of plan and Filter.
\<close>

definition recordSQL :: "env \<Rightarrow> Filter \<Rightarrow> string \<Rightarrow> val \<Rightarrow> Filter" where
  "recordSQL L f desc v =
     (if \<not> Debug f then f
      else f\<lparr>sqlRecords := sqlRecords f @ [''['' @ desc @ ''] | args: '' @ fmt_v L v]\<rparr>)"

text \<open>The loop \<open>for _, w := range ws { if w == field { return true } }; return false\<close>.\<close>

fun range_has :: "string list \<Rightarrow> string \<Rightarrow> bool" where
  "range_has [] field = False"
| "range_has (w # ws) field = (if w = field then True else range_has ws field)"

definition isFilterable :: "Filter \<Rightarrow> string \<Rightarrow> bool" where
  "isFilterable f field =
     (if length (Filterable f) = 0 then True else range_has (Filterable f) field)"

definition isSortable :: "Filter \<Rightarrow> string \<Rightarrow> bool" where
  "isSortable f field =
     (if TrimSpace field = [] then False
      else if field = ''id'' \<or> field = ''created_at'' \<or> field = ''updated_at'' then True
      else if length (Sortable f) = 0 then False
      else range_has (Sortable f) field)"

text \<open>One round of the loop of \<open>applyComplexCondition\<close>, for the entry \<open>op: v\<close>.\<close>

definition complex_step :: "env \<Rightarrow> string \<Rightarrow> string \<times> val \<Rightarrow> DB \<times> Filter \<Rightarrow> DB \<times> Filter" where
  "complex_step L field = (\<lambda>(op, v) (db, f).
     if op = ''eq'' then
       (db @ [CWhere (field @ '' = ?'') [v]], recordSQL L f (''EQ '' @ field) v)
     else if op = ''neq'' then
       (db @ [CWhere (field @ '' != ?'') [v]], recordSQL L f (''NEQ '' @ field) v)
     else if op = ''gt'' then
       (db @ [CWhere (field @ '' > ?'') [v]], recordSQL L f (''GT '' @ field) v)
     else if op = ''gte'' then
       (db @ [CWhere (field @ '' >= ?'') [v]], recordSQL L f (''GTE '' @ field) v)
     else if op = ''lt'' then
       (db @ [CWhere (field @ '' < ?'') [v]], recordSQL L f (''LT '' @ field) v)
     else if op = ''lte'' then
       (db @ [CWhere (field @ '' <= ?'') [v]], recordSQL L f (''LTE '' @ field) v)
     else if op = ''like'' then
       (db @ [CWhere (field @ '' LIKE ?'') [VString (fmt_v L v)]],
        recordSQL L f (''LIKE '' @ field) v)
     else if op = ''in'' then
       (db @ [CWhere (field @ '' IN (?)'') [v]], recordSQL L f (''IN '' @ field) v)
     else if op = ''between'' then
       (case v of
          VSlice arr \<Rightarrow>
            if length arr = 2 then
              (db @ [CWhere (field @ '' BETWEEN ? AND ?'') [arr ! 0, arr ! 1]],
               recordSQL L f (''BETWEEN '' @ field) (VSlice arr))
            else (db, f)
        | _ \<Rightarrow> (db, f))
     else (db, f))"

definition applyComplexCondition ::
  "env \<Rightarrow> Filter \<Rightarrow> DB \<Rightarrow> string \<Rightarrow> (string \<times> val) list \<Rightarrow> DB \<times> Filter" where
  "applyComplexCondition L f db field conds = fold (complex_step L field) conds (db, f)"

text \<open>One round of the loop of \<open>applyQueryConditions\<close>, for the entry \<open>field: v\<close>.\<close>

definition condition_step :: "env \<Rightarrow> string \<times> val \<Rightarrow> DB \<times> Filter \<Rightarrow> DB \<times> Filter" where
  "condition_step L = (\<lambda>(field, v) (db, f).
     if \<not> isFilterable f field then (db, f)
     else
       (case v of
          VString _ \<Rightarrow> (db @ [CWhere (field @ '' = ?'') [v]], recordSQL L f (''EQ '' @ field) v)
        | VInt _ \<Rightarrow> (db @ [CWhere (field @ '' = ?'') [v]], recordSQL L f (''EQ '' @ field) v)
        | VFloat64 _ \<Rightarrow> (db @ [CWhere (field @ '' = ?'') [v]], recordSQL L f (''EQ '' @ field) v)
        | VBool _ \<Rightarrow> (db @ [CWhere (field @ '' = ?'') [v]], recordSQL L f (''EQ '' @ field) v)
        | VSlice _ \<Rightarrow> (db @ [CWhere (field @ '' IN (?)'') [v]], recordSQL L f (''IN '' @ field) v)
        | VStrings _ \<Rightarrow> (db @ [CWhere (field @ '' IN (?)'') [v]], recordSQL L f (''IN '' @ field) v)
        | VMap conds \<Rightarrow> applyComplexCondition L f db field conds
        | VNil \<Rightarrow> (db, f)
        | VIntMap _ \<Rightarrow> (db, f)
        | VUint _ \<Rightarrow> (db, f)
        | VOther _ \<Rightarrow> (db, f)))"

definition applyQueryConditions ::
  "env \<Rightarrow> Filter \<Rightarrow> DB \<Rightarrow> (string \<times> val) list \<Rightarrow> DB \<times> Filter" where
  "applyQueryConditions L f db conditions = fold (condition_step L) conditions (db, f)"

text \<open>One round of the loop over \<open>f.Joins\<close>.\<close>

definition join_step :: "env \<Rightarrow> JoinConfig \<Rightarrow> DB \<times> Filter \<Rightarrow> DB \<times> Filter" where
  "join_step L j = (\<lambda>(db, f).
     if ToLower (JoinType j) = ''left'' then
       (db @ [CJoins (''LEFT JOIN '' @ Table j @ '' ON '' @ On j)],
        recordSQL L f (''LEFT JOIN '' @ Table j @ '' ON '' @ On j) VNil)
     else
       (db @ [CJoins (''INNER JOIN '' @ Table j @ '' ON '' @ On j)],
        recordSQL L f (''INNER JOIN '' @ Table j @ '' ON '' @ On j) VNil))"

definition PaginationQuery :: "env \<Rightarrow> Filter \<Rightarrow> DB \<Rightarrow> DB \<times> Filter" where
  "PaginationQuery L f db =
     (let f1 = (if Debug f then f\<lparr>sqlRecords := []\<rparr> else f);
          (db2, f2) =
            (if Unscoped f1 then
               (db @ [CUnscoped],
                recordSQL L f1 ''UNSCOPED'' (VString ''include soft-deleted records''))
             else (db, f1));
          (db3, f3) =
            (if length (Joins f2) > 0 then fold (join_step L) (Joins f2) (db2, f2)
             else (db2, f2));
          (db4, f4) =
            (if length (Filters f3) > 0 then applyQueryConditions L f3 db3 (Filters f3)
             else (db3, f3))
      in if QueryStr f4 \<noteq> [] then
           (case json_Unmarshal L (QueryStr f4) of
              Some queryMap \<Rightarrow> applyQueryConditions L f4 db4 queryMap
            | None \<Rightarrow> (db4, f4))
         else (db4, f4))"

text \<open>One round of the loop over the parts of \<open>f.Sort\<close>.\<close>

definition sort_step :: "env \<Rightarrow> string \<Rightarrow> DB \<times> Filter \<Rightarrow> DB \<times> Filter" where
  "sort_step L s0 = (\<lambda>(db, f).
     let s = TrimSpace s0 in
     if s = [] then (db, f)
     else
       let (order, field) =
             (if HasPrefix s ''-'' then (''DESC'', TrimPrefix s ''-'') else (''ASC'', s))
       in if isSortable f field then
            (db @ [COrder (field @ '' '' @ order)],
             recordSQL L f (''ORDER '' @ field @ '' '' @ order) VNil)
          else (db, f))"

definition ApplySortAndPagination :: "env \<Rightarrow> Filter \<Rightarrow> DB \<Rightarrow> DB \<times> Filter" where
  "ApplySortAndPagination L f db =
     (let (db1, f1) =
            (if Sort f \<noteq> [] then fold (sort_step L) (Split (Sort f) CHR '','') (db, f)
             else (db, f));
          f2 = (if sint (Page f1) \<le> 0 then f1\<lparr>Page := 1\<rparr> else f1);
          f3 = (if sint (PageSize f2) \<le> 0 then f2\<lparr>PageSize := 10\<rparr> else f2);
          f4 = (if sint (PageSize f3) > 500 then f3\<lparr>PageSize := 500\<rparr> else f3);
          offset = (Page f4 - 1) * PageSize f4;
          db2 = db1 @ [COffset offset, CLimit (PageSize f4)];
          f5 = recordSQL L f4 ''Pagination''
                 (VIntMap [(''page'', Page f4), (''pageSize'', PageSize f4)])
      in if Debug f5 then (db2, f5\<lparr>finalSQL := ToSQL L db2\<rparr>) else (db2, f5))"

section \<open>query.go: the generic operations\<close>

text \<open>
  The methods of \<open>baseRepository\<close> in repository.go pass their arguments and \<open>r.db\<close> on
  to these functions and return their results: \<open>ListByFilter\<close> is \<open>QueryWithFilter\<close>,
  \<open>ListPagination\<close> is \<open>QueryWithPagination\<close>, \<open>UpdateById\<close> is \<open>UpdateByIdWithMap\<close>.
\<close>

text \<open>
  Go's \<open>error\<close> values: \<open>errors.New(msg)\<close>, \<open>gorm.ErrRecordNotFound\<close>, and any other error
  that the storage engine reports. The specification's \<open>InvalidId\<close> is
  \<open>errors.New("id cannot be zero")\<close>.
\<close>

datatype error = ErrorsNew string | ErrRecordNotFound | ErrStorage string

definition InvalidId :: error where
  "InvalidId = ErrorsNew ''id cannot be zero''"

text \<open>
  The storage collaborator. A call that executes a plan is an entry of the call log; the
  log is the only state that the operations reach through \<open>db\<close>, and the engine's reply to
  a call may depend on every call made before it.
\<close>

datatype 'r call =
    Count DB
  | Find DB
  | Last DB
  | Create DB 'r
  | Updates DB "(string \<times> val) list"
  | Delete DB go_uint
  | UpdateColumn DB string val

record 'r engine =
  count_reply :: "'r call list \<Rightarrow> DB \<Rightarrow> error + go_int64"
  find_reply :: "'r call list \<Rightarrow> DB \<Rightarrow> error + 'r list"
  last_reply :: "'r call list \<Rightarrow> DB \<Rightarrow> error + 'r"
  create_reply :: "'r call list \<Rightarrow> DB \<Rightarrow> 'r \<Rightarrow> error option"
  updates_reply :: "'r call list \<Rightarrow> DB \<Rightarrow> (string \<times> val) list \<Rightarrow> error + go_int64"
  delete_reply :: "'r call list \<Rightarrow> DB \<Rightarrow> go_uint \<Rightarrow> error + go_int64"
  update_column_reply :: "'r call list \<Rightarrow> DB \<Rightarrow> string \<Rightarrow> val \<Rightarrow> error + go_int64"

text \<open>
  The write operations reply with \<open>result.Error\<close> or with \<open>result.RowsAffected\<close>. Every
  operation returns its Go results and the call log after it.
\<close>

definition GetInfoById ::
  "'r engine \<Rightarrow> 'r call list \<Rightarrow> DB \<Rightarrow> go_uint \<Rightarrow> (error + 'r) \<times> 'r call list" where
  "GetInfoById E cs db id' =
     (if id' = 0 then (Inl (ErrorsNew ''id cannot be zero''), cs)
      else
        let q = db @ [CModel, CWhere ''id = ?'' [VUint id']] in
        (case last_reply E cs q of
           Inl e \<Rightarrow> (Inl e, cs @ [Last q])
         | Inr res \<Rightarrow> (Inr res, cs @ [Last q])))"

definition Created ::
  "'r engine \<Rightarrow> 'r call list \<Rightarrow> DB \<Rightarrow> 'r \<Rightarrow> error option \<times> 'r call list" where
  "Created E cs db m = (create_reply E cs db m, cs @ [Create db m])"

definition UpdateByIdWithMap ::
  "'r engine \<Rightarrow> 'r call list \<Rightarrow> DB \<Rightarrow> go_uint \<Rightarrow> (string \<times> val) list
     \<Rightarrow> error option \<times> 'r call list" where
  "UpdateByIdWithMap E cs db id' updates =
     (if id' = 0 then (Some (ErrorsNew ''id cannot be zero''), cs)
      else
        let q = db @ [CModel, CWhere ''id = ?'' [VUint id']] in
        (case updates_reply E cs q updates of
           Inl e \<Rightarrow> (Some e, cs @ [Updates q updates])
         | Inr rowsAffected \<Rightarrow>
             if rowsAffected = 0 then (Some ErrRecordNotFound, cs @ [Updates q updates])
             else (None, cs @ [Updates q updates])))"

definition SoftDeleteById ::
  "'r engine \<Rightarrow> 'r call list \<Rightarrow> DB \<Rightarrow> go_uint \<Rightarrow> error option \<times> 'r call list" where
  "SoftDeleteById E cs db id' =
     (if id' = 0 then (Some (ErrorsNew ''id cannot be zero''), cs)
      else
        (case delete_reply E cs db id' of
           Inl e \<Rightarrow> (Some e, cs @ [Delete db id'])
         | Inr rowsAffected \<Rightarrow>
             if rowsAffected = 0 then (Some ErrRecordNotFound, cs @ [Delete db id'])
             else (None, cs @ [Delete db id'])))"

definition DeleteById ::
  "'r engine \<Rightarrow> 'r call list \<Rightarrow> DB \<Rightarrow> go_uint \<Rightarrow> error option \<times> 'r call list" where
  "DeleteById E cs db id' =
     (if id' = 0 then (Some (ErrorsNew ''id cannot be zero''), cs)
      else
        let q = db @ [CModel, CWhere ''id = ?'' [VUint id']] in
        (case update_column_reply E cs q ''is_deleted'' (VInt 1) of
           Inl e \<Rightarrow> (Some e, cs @ [UpdateColumn q ''is_deleted'' (VInt 1)])
         | Inr rowsAffected \<Rightarrow>
             if rowsAffected = 0 then
               (Some ErrRecordNotFound, cs @ [UpdateColumn q ''is_deleted'' (VInt 1)])
             else (None, cs @ [UpdateColumn q ''is_deleted'' (VInt 1)])))"

text \<open>
  The five results of \<open>QueryWithPagination\<close>; a nil slice is \<open>None\<close>, the empty slice
  \<open>[]T{}\<close> is \<open>Some []\<close>.
\<close>

record 'r page_result =
  res_rows :: "'r list option"
  res_total :: go_int64
  res_page :: go_int
  res_pageSize :: go_int
  res_err :: "error option"

text \<open>
  \<open>PrintSQLs\<close> writes the trace to standard output and changes neither the Filter nor the
  plan, so the two listing functions pass over it.
\<close>

definition QueryWithPagination ::
  "env \<Rightarrow> 'r engine \<Rightarrow> 'r call list \<Rightarrow> DB \<Rightarrow> Filter
     \<Rightarrow> 'r page_result \<times> Filter \<times> 'r call list" where
  "QueryWithPagination L E cs db f =
     (let (queryDB, f1) = PaginationQuery L f (db @ [CModel]);
          cs1 = cs @ [Count queryDB]
      in case count_reply E cs queryDB of
           Inl e \<Rightarrow>
             (\<lparr>res_rows = None, res_total = 0, res_page = Page f1,
               res_pageSize = PageSize f1, res_err = Some e\<rparr>, f1, cs1)
         | Inr count \<Rightarrow>
             if count = 0 then
               (\<lparr>res_rows = Some [], res_total = 0, res_page = Page f1,
                 res_pageSize = PageSize f1, res_err = None\<rparr>, f1, cs1)
             else
               let (queryDB2, f2) = ApplySortAndPagination L f1 queryDB in
               (case find_reply E cs1 queryDB2 of
                  Inl e \<Rightarrow>
                    (\<lparr>res_rows = None, res_total = 0, res_page = Page f2,
                      res_pageSize = PageSize f2, res_err = Some e\<rparr>,
                     f2, cs1 @ [Find queryDB2])
                | Inr result \<Rightarrow>
                    (\<lparr>res_rows = Some result, res_total = count, res_page = Page f2,
                      res_pageSize = PageSize f2, res_err = None\<rparr>,
                     f2, cs1 @ [Find queryDB2])))"

definition QueryWithFilter ::
  "env \<Rightarrow> 'r engine \<Rightarrow> 'r call list \<Rightarrow> DB \<Rightarrow> Filter
     \<Rightarrow> ('r list option \<times> error option) \<times> Filter \<times> 'r call list" where
  "QueryWithFilter L E cs db f =
     (let (queryDB, f1) = PaginationQuery L f (db @ [CModel]);
          (queryDB2, f2) = ApplySortAndPagination L f1 queryDB
      in case find_reply E cs queryDB2 of
           Inl e \<Rightarrow> ((None, Some e), f2, cs @ [Find queryDB2])
         | Inr result \<Rightarrow> ((Some result, None), f2, cs @ [Find queryDB2]))"

section \<open>The specification's clause groups\<close>

text \<open>
  The clauses that the specification (sections 4.1 to 4.3) assigns to one operator entry, one
  condition, one join and one sort token, as pure functions; the properties below compare
  the loops of the source with them.
\<close>

definition operator_clauses :: "env \<Rightarrow> string \<Rightarrow> string \<times> val \<Rightarrow> clause list" where
  "operator_clauses L field = (\<lambda>(op, v).
     case map_of [(''eq'', '' = ?''), (''neq'', '' != ?''), (''gt'', '' > ?''),
                  (''gte'', '' >= ?''), (''lt'', '' < ?''), (''lte'', '' <= ?''),
                  (''in'', '' IN (?)'')] op of
       Some sql \<Rightarrow> [CWhere (field @ sql) [v]]
     | None \<Rightarrow>
         if op = ''like'' then [CWhere (field @ '' LIKE ?'') [VString (fmt_v L v)]]
         else if op = ''between'' then
           (case v of
              VSlice [a, b] \<Rightarrow> [CWhere (field @ '' BETWEEN ? AND ?'') [a, b]]
            | _ \<Rightarrow> [])
         else [])"

definition is_scalar :: "val \<Rightarrow> bool" where
  "is_scalar v =
     (case v of VString _ \<Rightarrow> True | VInt _ \<Rightarrow> True | VFloat64 _ \<Rightarrow> True | VBool _ \<Rightarrow> True
      | _ \<Rightarrow> False)"

definition is_sequence :: "val \<Rightarrow> bool" where
  "is_sequence v = (case v of VSlice _ \<Rightarrow> True | VStrings _ \<Rightarrow> True | _ \<Rightarrow> False)"

definition condition_clauses :: "env \<Rightarrow> string \<times> val \<Rightarrow> clause list" where
  "condition_clauses L = (\<lambda>(field, v).
     if is_scalar v then [CWhere (field @ '' = ?'') [v]]
     else if is_sequence v then [CWhere (field @ '' IN (?)'') [v]]
     else (case v of VMap conds \<Rightarrow> concat (map (operator_clauses L field) conds) | _ \<Rightarrow> []))"

definition allowed_clauses :: "env \<Rightarrow> Filter \<Rightarrow> string \<times> val \<Rightarrow> clause list" where
  "allowed_clauses L f c = (if isFilterable f (fst c) then condition_clauses L c else [])"

definition join_clause :: "JoinConfig \<Rightarrow> clause" where
  "join_clause j =
     CJoins ((if ToLower (JoinType j) = ''left'' then ''LEFT'' else ''INNER'')
             @ '' JOIN '' @ Table j @ '' ON '' @ On j)"

text \<open>
  The conditions of the dynamic query: the entries of the decoded object, none when the
  string is empty or does not decode.
\<close>

definition dynamic_conditions :: "env \<Rightarrow> Filter \<Rightarrow> (string \<times> val) list" where
  "dynamic_conditions L f =
     (if QueryStr f = [] then []
      else (case json_Unmarshal L (QueryStr f) of None \<Rightarrow> [] | Some m \<Rightarrow> m))"

definition unscoped_clauses :: "Filter \<Rightarrow> clause list" where
  "unscoped_clauses f = (if Unscoped f then [CUnscoped] else [])"

definition predicate_clauses :: "env \<Rightarrow> Filter \<Rightarrow> clause list" where
  "predicate_clauses L f =
     concat (map (allowed_clauses L f) (Filters f))
     @ concat (map (allowed_clauses L f) (dynamic_conditions L f))"

text \<open>
  The field of a sort token and its direction: the token trimmed, a leading \<open>-\<close> removed.
\<close>

definition token_descending :: "string \<Rightarrow> bool" where
  "token_descending t = HasPrefix (TrimSpace t) ''-''"

definition token_field :: "string \<Rightarrow> string" where
  "token_field t = TrimPrefix (TrimSpace t) ''-''"

definition order_clauses :: "Filter \<Rightarrow> string \<Rightarrow> clause list" where
  "order_clauses f t =
     (if TrimSpace t \<noteq> [] \<and> isSortable f (token_field t) then
        [COrder (token_field t @ '' '' @ (if token_descending t then ''DESC'' else ''ASC''))]
      else [])"

definition sort_tokens :: "Filter \<Rightarrow> string list" where
  "sort_tokens f = (if Sort f = [] then [] else Split (Sort f) CHR '','')"

text \<open>The rank of a clause's group in the pipeline of the specification's section 4.4.\<close>

fun clause_group :: "clause \<Rightarrow> nat" where
  "clause_group CModel = 0"
| "clause_group CUnscoped = 1"
| "clause_group (CJoins _) = 2"
| "clause_group (CWhere _ _) = 3"
| "clause_group (COrder _) = 4"
| "clause_group (COffset _) = 5"
| "clause_group (CLimit _) = 5"

text \<open>
  The effective page and page size of the specification's section 3: the caller's values,
  clamped.
\<close>

definition effective_page :: "go_int \<Rightarrow> go_int" where
  "effective_page p = (if sint p \<le> 0 then 1 else p)"

definition effective_pageSize :: "go_int \<Rightarrow> go_int" where
  "effective_pageSize n = (if sint n \<le> 0 then 10 else if sint n > 500 then 500 else n)"

definition page_clauses :: "Filter \<Rightarrow> clause list" where
  "page_clauses f =
     [COffset ((effective_page (Page f) - 1) * effective_pageSize (PageSize f)),
      CLimit (effective_pageSize (PageSize f))]"

text \<open>\<open>trace_changed f g\<close>: the Filter \<open>g\<close> is \<open>f\<close> but for its trace \<open>sqlRecords\<close>.\<close>

definition trace_changed :: "Filter \<Rightarrow> Filter \<Rightarrow> bool" where
  "trace_changed f g = (g = f\<lparr>sqlRecords := sqlRecords g\<rparr>)"

section \<open>Sample collaborators for concrete evaluations\<close>

text \<open>
  A library environment that decodes three query strings (\<open>null\<close>, \<open>{}\<close> and
  \<open>{"age":{"gte":18}}\<close>, where 18 is the float64 0x4032000000000000) and rejects every
  other one, with a \<open>%v\<close> that prints strings and nil only.
\<close>

definition json_age_gte_18 :: string where
  "json_age_gte_18 =
     ''{'' @ [CHR 0x22] @ ''age'' @ [CHR 0x22] @ '':{'' @ [CHR 0x22] @ ''gte'' @ [CHR 0x22]
     @ '':18}}''"

definition sample_env :: env where
  "sample_env =
     \<lparr>json_Unmarshal =
        map_of [(''null'', []), (''{}'', []),
                (json_age_gte_18, [(''age'', VMap [(''gte'', VFloat64 0x4032000000000000)])])],
      fmt_v = (\<lambda>v. case v of VString s \<Rightarrow> s | VNil \<Rightarrow> ''<nil>'' | _ \<Rightarrow> ''?''),
      ToSQL = (\<lambda>db. ''SELECT'')\<rparr>"

text \<open>The zero value \<open>Filter{}\<close>.\<close>

definition zero_Filter :: Filter where
  "zero_Filter =
     \<lparr>Filterable = [], QueryStr = [], Filters = [], Sortable = [], Sort = [], Page = 0,
      PageSize = 0, Unscoped = False, Joins = [], sqlRecords = [], Debug = False,
      finalSQL = []\<rparr>"

text \<open>
  A storage engine over a fixed table that no call changes. It answers a count with the
  number of rows and a fetch with the rows that the plan's last offset and limit leave;
  it knows no predicate, join or order, so it stands for a real engine on plans without
  them only. Every point operation finds no row.
\<close>

definition plan_offset :: "DB \<Rightarrow> nat" where
  "plan_offset db = fold (\<lambda>c n. case c of COffset k \<Rightarrow> unat k | _ \<Rightarrow> n) db 0"

definition plan_limit :: "DB \<Rightarrow> nat option" where
  "plan_limit db = fold (\<lambda>c n. case c of CLimit k \<Rightarrow> Some (unat k) | _ \<Rightarrow> n) db None"

definition table_engine :: "'r list \<Rightarrow> 'r engine" where
  "table_engine table =
     \<lparr>count_reply = (\<lambda>cs db. Inr (of_nat (length table))),
      find_reply = (\<lambda>cs db. Inr (case plan_limit db of
                                   None \<Rightarrow> drop (plan_offset db) table
                                 | Some n \<Rightarrow> take n (drop (plan_offset db) table))),
      last_reply = (\<lambda>cs db. Inl ErrRecordNotFound),
      create_reply = (\<lambda>cs db m. None),
      updates_reply = (\<lambda>cs db u. Inr 0),
      delete_reply = (\<lambda>cs db i. Inr 0),
      update_column_reply = (\<lambda>cs db c v. Inr 0)\<rparr>"

text \<open>A Filter that uses every stage of the pipeline.\<close>

definition sample_Filter :: Filter where
  "sample_Filter = zero_Filter\<lparr>Unscoped := True,
     Joins := [\<lparr>Table = ''roles'', On = ''users.role_id = roles.id'', JoinType = ''LEFT''\<rparr>],
     Filters := [(''status'', VString ''active''),
                 (''n'', VMap [(''between'', VSlice [VInt 1, VInt 2])])],
     QueryStr := json_age_gte_18, Sort := ''-created_at, name,id'', Page := 2,
     PageSize := 20\<rparr>"

text \<open>A Filter whose page and page size lie outside the bounds.\<close>

definition unclamped_Filter :: Filter where
  "unclamped_Filter = zero_Filter\<lparr>Sort := ''id'', Page := - 3, PageSize := 1000\<rparr>"

section \<open>Auxiliary facts: what each loop and each stage emits\<close>

lemma trace_changed_iff: "trace_changed f g \<longleftrightarrow> (\<exists>tr. g = f\<lparr>sqlRecords := tr\<rparr>)"
proof
  assume "trace_changed f g"
  then have "g = f\<lparr>sqlRecords := sqlRecords g\<rparr>" by (simp add: trace_changed_def)
  then show "\<exists>tr. g = f\<lparr>sqlRecords := tr\<rparr>" ..
next
  assume "\<exists>tr. g = f\<lparr>sqlRecords := tr\<rparr>"
  then obtain tr where "g = f\<lparr>sqlRecords := tr\<rparr>" ..
  then show "trace_changed f g" by (simp add: trace_changed_def)
qed

lemma trace_changed_refl: "trace_changed f f"
  by (simp add: trace_changed_def)

lemma trace_changed_trans: "trace_changed f g \<Longrightarrow> trace_changed g h \<Longrightarrow> trace_changed f h"
  by (auto simp: trace_changed_iff)

lemma trace_changed_recordSQL: "trace_changed f (recordSQL L f d v)"
  by (simp add: trace_changed_def recordSQL_def)

lemma trace_changed_isFilterable: "trace_changed f g \<Longrightarrow> isFilterable g = isFilterable f"
  by (auto simp: trace_changed_iff isFilterable_def fun_eq_iff)

lemma trace_changed_isSortable: "trace_changed f g \<Longrightarrow> isSortable g = isSortable f"
  by (auto simp: trace_changed_iff isSortable_def fun_eq_iff)

text \<open>A loop whose rounds append clauses that depend on the Filter's fields other than the trace.\<close>

lemma fold_plan:
  assumes plan: "\<And>x db f. fst (S x (db, f)) = db @ em f x"
    and trace: "\<And>x db f. trace_changed f (snd (S x (db, f)))"
    and em: "\<And>f g. trace_changed f g \<Longrightarrow> em g = em f"
  shows "fst (fold S xs (db, f)) = db @ concat (map (em f) xs)
         \<and> trace_changed f (snd (fold S xs (db, f)))"
proof (induction xs arbitrary: db f)
  case Nil
  show ?case by (simp add: trace_changed_refl)
next
  case (Cons x xs)
  obtain db1 f1 where s: "S x (db, f) = (db1, f1)" by (cases "S x (db, f)")
  from plan [of x db f] s have db1: "db1 = db @ em f x" by simp
  from trace [of f x db] s have f1: "trace_changed f f1" by simp
  have same: "em f1 = em f" by (rule em [OF f1])
  from Cons.IH [of db1 f1] have
    "fst (fold S xs (db1, f1)) = db1 @ concat (map (em f1) xs)"
    "trace_changed f1 (snd (fold S xs (db1, f1)))" by simp_all
  with db1 f1 same s show ?case
    by (auto intro: trace_changed_trans)
qed

lemma complex_step_plan:
  "fst (complex_step L field x (db, f)) = db @ operator_clauses L field x"
  by (cases x) (auto simp: complex_step_def operator_clauses_def split: val.splits list.splits)

lemma complex_step_trace: "trace_changed f (snd (complex_step L field x (db, f)))"
  by (cases x)
    (auto simp: complex_step_def trace_changed_refl trace_changed_recordSQL split: val.splits)

lemma applyComplexCondition_plan:
  "fst (applyComplexCondition L f db field conds) = db @ concat (map (operator_clauses L field) conds)"
  unfolding applyComplexCondition_def
  using fold_plan [of "complex_step L field" "\<lambda>f. operator_clauses L field", OF complex_step_plan complex_step_trace]
  by simp

lemma applyComplexCondition_trace:
  "trace_changed f (snd (applyComplexCondition L f db field conds))"
  unfolding applyComplexCondition_def
  using fold_plan [of "complex_step L field" "\<lambda>f. operator_clauses L field", OF complex_step_plan complex_step_trace]
  by simp

lemma condition_step_plan:
  "fst (condition_step L c (db, f)) = db @ allowed_clauses L f c"
  by (cases c)
    (auto simp: condition_step_def allowed_clauses_def condition_clauses_def is_scalar_def
      is_sequence_def applyComplexCondition_plan split: val.splits)

lemma condition_step_trace: "trace_changed f (snd (condition_step L c (db, f)))"
  by (cases c)
    (auto simp: condition_step_def trace_changed_refl trace_changed_recordSQL
      applyComplexCondition_trace split: val.splits)

lemma allowed_clauses_trace: "trace_changed f g \<Longrightarrow> allowed_clauses L g = allowed_clauses L f"
  by (simp add: allowed_clauses_def trace_changed_isFilterable fun_eq_iff)

lemma applyQueryConditions_plan:
  "fst (applyQueryConditions L f db conds) = db @ concat (map (allowed_clauses L f) conds)"
  unfolding applyQueryConditions_def
  using fold_plan [of "condition_step L" "allowed_clauses L", OF condition_step_plan condition_step_trace allowed_clauses_trace]
  by simp

lemma applyQueryConditions_trace:
  "trace_changed f (snd (applyQueryConditions L f db conds))"
  unfolding applyQueryConditions_def
  using fold_plan [of "condition_step L" "allowed_clauses L", OF condition_step_plan condition_step_trace allowed_clauses_trace]
  by simp

lemma join_step_plan: "fst (join_step L j (db, f)) = db @ [join_clause j]"
  by (simp add: join_step_def join_clause_def)

lemma join_step_trace: "trace_changed f (snd (join_step L j (db, f)))"
  by (simp add: join_step_def trace_changed_recordSQL)

lemma joins_plan:
  "fst (fold (join_step L) js (db, f)) = db @ map join_clause js
   \<and> trace_changed f (snd (fold (join_step L) js (db, f)))"
  using fold_plan [of "join_step L" "\<lambda>f j. [join_clause j]", OF join_step_plan join_step_trace]
  by (simp add: concat_map_singleton)

lemma sort_step_plan: "fst (sort_step L t (db, f)) = db @ order_clauses f t"
  by (simp add: sort_step_def order_clauses_def token_field_def token_descending_def Let_def
      TrimPrefix_def)

lemma sort_step_trace: "trace_changed f (snd (sort_step L t (db, f)))"
  by (simp add: sort_step_def Let_def trace_changed_refl trace_changed_recordSQL)

lemma order_clauses_trace: "trace_changed f g \<Longrightarrow> order_clauses g = order_clauses f"
  by (simp add: order_clauses_def trace_changed_isSortable fun_eq_iff)

lemma sort_plan:
  "fst (fold (sort_step L) ts (db, f)) = db @ concat (map (order_clauses f) ts)
   \<and> trace_changed f (snd (fold (sort_step L) ts (db, f)))"
  using fold_plan [of "sort_step L" order_clauses, OF sort_step_plan sort_step_trace order_clauses_trace]
  by simp

lemma trace_changedD:
  assumes "trace_changed f g"
  shows "Filterable g = Filterable f" "QueryStr g = QueryStr f" "Filters g = Filters f"
    "Sortable g = Sortable f" "Sort g = Sort f" "Page g = Page f" "PageSize g = PageSize f"
    "Unscoped g = Unscoped f" "Joins g = Joins f" "Debug g = Debug f" "finalSQL g = finalSQL f"
  using assms by (auto simp: trace_changed_iff)

lemma PaginationQuery_stages:
  "PaginationQuery L f db =
     (let f1 = (if Debug f then f\<lparr>sqlRecords := []\<rparr> else f);
          s2 = (if Unscoped f1 then
                  (db @ [CUnscoped],
                   recordSQL L f1 ''UNSCOPED'' (VString ''include soft-deleted records''))
                else (db, f1));
          s3 = (if length (Joins (snd s2)) > 0 then fold (join_step L) (Joins (snd s2)) s2
                else s2);
          s4 = (if length (Filters (snd s3)) > 0
                then applyQueryConditions L (snd s3) (fst s3) (Filters (snd s3)) else s3)
      in if QueryStr (snd s4) \<noteq> [] then
           (case json_Unmarshal L (QueryStr (snd s4)) of
              Some queryMap \<Rightarrow> applyQueryConditions L (snd s4) (fst s4) queryMap
            | None \<Rightarrow> s4)
         else s4)"
  by (simp only: PaginationQuery_def Let_def split_beta prod.collapse)

lemma PaginationQuery_plan_trace:
  "fst (PaginationQuery L f db) =
     db @ unscoped_clauses f @ map join_clause (Joins f) @ predicate_clauses L f
   \<and> trace_changed f (snd (PaginationQuery L f db))"
proof -
  define f1 where "f1 = (if Debug f then f\<lparr>sqlRecords := []\<rparr> else f)"
  define s2 where "s2 = (if Unscoped f1 then
                  (db @ [CUnscoped],
                   recordSQL L f1 ''UNSCOPED'' (VString ''include soft-deleted records''))
                else (db, f1))"
  define s3 where "s3 = (if length (Joins (snd s2)) > 0
     then fold (join_step L) (Joins (snd s2)) s2 else s2)"
  define s4 where "s4 = (if length (Filters (snd s3)) > 0
                then applyQueryConditions L (snd s3) (fst s3) (Filters (snd s3)) else s3)"
  define s5 where "s5 = (if QueryStr (snd s4) \<noteq> [] then
           (case json_Unmarshal L (QueryStr (snd s4)) of
              Some queryMap \<Rightarrow> applyQueryConditions L (snd s4) (fst s4) queryMap
            | None \<Rightarrow> s4)
         else s4)"
  have whole: "PaginationQuery L f db = s5"
    unfolding PaginationQuery_stages Let_def s5_def s4_def s3_def s2_def f1_def ..
  have t1: "trace_changed f f1"
    by (simp add: f1_def trace_changed_def)
  have p2: "fst s2 = db @ unscoped_clauses f"
    by (simp add: s2_def unscoped_clauses_def trace_changedD [OF t1])
  have "trace_changed f1 (snd s2)"
    by (simp add: s2_def trace_changed_refl trace_changed_recordSQL)
  with t1 have t2: "trace_changed f (snd s2)" by (rule trace_changed_trans)
  have j: "fst s3 = fst s2 @ map join_clause (Joins (snd s2))"
    and "trace_changed (snd s2) (snd s3)"
    using joins_plan [of L "Joins (snd s2)" "fst s2" "snd s2"]
    by (simp_all add: s3_def trace_changed_refl)
  with t2 have t3: "trace_changed f (snd s3)" by (blast intro: trace_changed_trans)
  from j p2 have p3: "fst s3 = db @ unscoped_clauses f @ map join_clause (Joins f)"
    by (simp add: trace_changedD [OF t2])
  have c: "fst s4 = fst s3 @ concat (map (allowed_clauses L (snd s3)) (Filters (snd s3)))"
    and "trace_changed (snd s3) (snd s4)"
    by (simp_all add: s4_def applyQueryConditions_plan applyQueryConditions_trace
        trace_changed_refl)
  with t3 have t4: "trace_changed f (snd s4)" by (blast intro: trace_changed_trans)
  from c p3 have p4: "fst s4 = db @ unscoped_clauses f @ map join_clause (Joins f)
       @ concat (map (allowed_clauses L f) (Filters f))"
    by (simp add: trace_changedD [OF t3] allowed_clauses_trace [OF t3])
  have d: "fst s5 = fst s4
        @ concat (map (allowed_clauses L (snd s4)) (dynamic_conditions L (snd s4)))"
    and "trace_changed (snd s4) (snd s5)"
    by (simp_all add: s5_def dynamic_conditions_def applyQueryConditions_plan
        applyQueryConditions_trace trace_changed_refl split: option.splits)
  with t4 have t5: "trace_changed f (snd s5)" by (blast intro: trace_changed_trans)
  have "dynamic_conditions L (snd s4) = dynamic_conditions L f"
    by (simp add: dynamic_conditions_def trace_changedD [OF t4])
  with d p4 have "fst s5 = db @ unscoped_clauses f @ map join_clause (Joins f)
       @ predicate_clauses L f"
    by (simp add: predicate_clauses_def allowed_clauses_trace [OF t4])
  with whole t5 show ?thesis by simp
qed

lemma ApplySortAndPagination_plan_frame:
  "fst (ApplySortAndPagination L f db) =
     db @ concat (map (order_clauses f) (sort_tokens f)) @ page_clauses f
   \<and> (\<exists>tr sql. snd (ApplySortAndPagination L f db) =
         f\<lparr>Page := effective_page (Page f), PageSize := effective_pageSize (PageSize f),
           sqlRecords := tr, finalSQL := sql\<rparr>)"
proof -
  obtain db1 f1 where s1:
    "(if Sort f \<noteq> [] then fold (sort_step L) (Split (Sort f) CHR '','') (db, f)
      else (db, f)) = (db1, f1)"
    by (cases "if Sort f \<noteq> [] then fold (sort_step L) (Split (Sort f) CHR '','') (db, f)
      else (db, f)")
  have "db1 = db @ concat (map (order_clauses f) (sort_tokens f)) \<and> trace_changed f f1"
  proof (cases "Sort f = []")
    case True
    with s1 show ?thesis by (simp add: sort_tokens_def trace_changed_refl)
  next
    case False
    with s1 sort_plan [of L "Split (Sort f) CHR '',''" db f] show ?thesis
      by (simp add: sort_tokens_def)
  qed
  then have db1: "db1 = db @ concat (map (order_clauses f) (sort_tokens f))"
    and "trace_changed f f1" by simp_all
  then obtain tr where f1: "f1 = f\<lparr>sqlRecords := tr\<rparr>"
    by (auto simp: trace_changed_iff)
  define f2 where "f2 = (if sint (Page f1) \<le> 0 then f1\<lparr>Page := 1\<rparr> else f1)"
  define f3 where "f3 = (if sint (PageSize f2) \<le> 0 then f2\<lparr>PageSize := 10\<rparr> else f2)"
  define f4 where "f4 = (if sint (PageSize f3) > 500 then f3\<lparr>PageSize := 500\<rparr> else f3)"
  define db2 where "db2 = db1 @ [COffset ((Page f4 - 1) * PageSize f4), CLimit (PageSize f4)]"
  define f5 where "f5 = recordSQL L f4 ''Pagination''
                 (VIntMap [(''page'', Page f4), (''pageSize'', PageSize f4)])"
  have whole: "ApplySortAndPagination L f db =
      (if Debug f5 then (db2, f5\<lparr>finalSQL := ToSQL L db2\<rparr>) else (db2, f5))"
    unfolding ApplySortAndPagination_def s1 Let_def prod.case f5_def db2_def f4_def f3_def
      f2_def ..
  have f2: "f2 = f1\<lparr>Page := effective_page (Page f)\<rparr>"
    by (simp add: f2_def f1 effective_page_def)
  have f4: "f4 = f2\<lparr>PageSize := effective_pageSize (PageSize f)\<rparr>"
    by (simp add: f4_def f3_def f2 f1 effective_pageSize_def)
  obtain tr' where f5: "f5 = f4\<lparr>sqlRecords := tr'\<rparr>"
    using trace_changed_recordSQL [of f4 L] by (auto simp: trace_changed_iff f5_def)
  have plan: "db2 = db @ concat (map (order_clauses f) (sort_tokens f)) @ page_clauses f"
    by (simp add: db2_def db1 f4 f2 f1 page_clauses_def)
  have frame: "f5 = f\<lparr>Page := effective_page (Page f),
      PageSize := effective_pageSize (PageSize f), sqlRecords := tr'\<rparr>"
    by (simp add: f5 f4 f2 f1)
  show ?thesis
  proof (cases "Debug f5")
    case True
    with whole have "ApplySortAndPagination L f db = (db2, f5\<lparr>finalSQL := ToSQL L db2\<rparr>)"
      by simp
    moreover have "f5\<lparr>finalSQL := ToSQL L db2\<rparr> = f\<lparr>Page := effective_page (Page f),
      PageSize := effective_pageSize (PageSize f), sqlRecords := tr', finalSQL := ToSQL L db2\<rparr>"
      by (simp add: frame)
    ultimately show ?thesis using plan by (metis fst_conv snd_conv)
  next
    case False
    with whole have "ApplySortAndPagination L f db = (db2, f5)" by simp
    moreover have "f5 = f\<lparr>Page := effective_page (Page f),
      PageSize := effective_pageSize (PageSize f), sqlRecords := tr', finalSQL := finalSQL f\<rparr>"
      by (simp add: frame)
    ultimately show ?thesis using plan by (metis fst_conv snd_conv)
  qed
qed

lemma operator_clauses_group: "c \<in> set (operator_clauses L field x) \<Longrightarrow> clause_group c = 3"
  by (cases x) (auto simp: operator_clauses_def split: val.splits list.splits if_splits)

lemma condition_clauses_group: "c \<in> set (condition_clauses L x) \<Longrightarrow> clause_group c = 3"
  by (cases x)
    (auto simp: condition_clauses_def split: val.splits if_splits dest: operator_clauses_group)

lemma allowed_clauses_group: "c \<in> set (allowed_clauses L f x) \<Longrightarrow> clause_group c = 3"
  by (auto simp: allowed_clauses_def split: if_splits dest: condition_clauses_group)

lemma predicate_clauses_group: "c \<in> set (predicate_clauses L f) \<Longrightarrow> clause_group c = 3"
  by (auto simp: predicate_clauses_def dest: allowed_clauses_group)

lemma unscoped_clauses_group: "c \<in> set (unscoped_clauses f) \<Longrightarrow> clause_group c = 1"
  by (auto simp: unscoped_clauses_def split: if_splits)

lemma join_clause_group: "clause_group (join_clause j) = 2"
  by (simp add: join_clause_def)

lemma order_clauses_group: "c \<in> set (order_clauses f t) \<Longrightarrow> clause_group c = 4"
  by (auto simp: order_clauses_def split: if_splits)

lemma page_clauses_group: "c \<in> set (page_clauses f) \<Longrightarrow> clause_group c = 5"
  by (auto simp: page_clauses_def)

lemma sorted_constant_group: "(\<And>c. c \<in> set xs \<Longrightarrow> g c = (k::nat)) \<Longrightarrow> sorted (map g xs)"
  by (induction xs) auto

lemma compiled_groups_sorted:
  "sorted (map clause_group
     (unscoped_clauses f @ map join_clause (Joins f) @ predicate_clauses L f
      @ concat (map (order_clauses f) (sort_tokens f)) @ page_clauses f))"
proof -
  have u: "sorted (map clause_group (unscoped_clauses f))"
    by (rule sorted_constant_group) (rule unscoped_clauses_group)
  have j: "sorted (map clause_group (map join_clause (Joins f)))"
    by (rule sorted_constant_group [where k = 2]) (auto simp: join_clause_group)
  have p: "sorted (map clause_group (predicate_clauses L f))"
    by (rule sorted_constant_group) (rule predicate_clauses_group)
  have og: "\<And>c. c \<in> set (concat (map (order_clauses f) (sort_tokens f))) \<Longrightarrow> clause_group c = 4"
    by (auto dest: order_clauses_group)
  have o: "sorted (map clause_group (concat (map (order_clauses f) (sort_tokens f))))"
    by (rule sorted_constant_group) (rule og)
  have g: "sorted (map clause_group (page_clauses f))"
    by (rule sorted_constant_group) (rule page_clauses_group)
  show ?thesis
    using u j p o g
    by (simp only: map_append sorted_append)
       (auto dest!: unscoped_clauses_group predicate_clauses_group order_clauses_group
          page_clauses_group
          simp: join_clause_group)
qed

text \<open>The query string is read by the last stage of PaginationQuery only.\<close>

lemma recordSQL_QueryStr:
  "recordSQL L (f\<lparr>QueryStr := q\<rparr>) d v = (recordSQL L f d v)\<lparr>QueryStr := q\<rparr>"
  by (simp add: recordSQL_def)

lemma fold_QueryStr:
  assumes "\<And>x db f. S x (db, f\<lparr>QueryStr := q\<rparr>) = apsnd (\<lambda>g. g\<lparr>QueryStr := q\<rparr>) (S x (db, f))"
  shows "fold S xs (db, f\<lparr>QueryStr := q\<rparr>) = apsnd (\<lambda>g. g\<lparr>QueryStr := q\<rparr>) (fold S xs (db, f))"
proof (induction xs arbitrary: db f)
  case Nil
  show ?case by simp
next
  case (Cons x xs)
  obtain db1 f1 where s: "S x (db, f) = (db1, f1)" by (cases "S x (db, f)")
  with assms [of x db f] have "S x (db, f\<lparr>QueryStr := q\<rparr>) = (db1, f1\<lparr>QueryStr := q\<rparr>)"
    by simp
  with s Cons.IH [of db1 f1] show ?case by simp
qed

lemma complex_step_QueryStr:
  "complex_step L field x (db, f\<lparr>QueryStr := q\<rparr>)
   = apsnd (\<lambda>g. g\<lparr>QueryStr := q\<rparr>) (complex_step L field x (db, f))"
  by (cases x) (simp add: complex_step_def recordSQL_QueryStr split: val.splits)

lemma applyComplexCondition_QueryStr:
  "applyComplexCondition L (f\<lparr>QueryStr := q\<rparr>) db field conds
   = apsnd (\<lambda>g. g\<lparr>QueryStr := q\<rparr>) (applyComplexCondition L f db field conds)"
  unfolding applyComplexCondition_def
  by (rule fold_QueryStr) (rule complex_step_QueryStr)

lemma condition_step_QueryStr:
  "condition_step L c (db, f\<lparr>QueryStr := q\<rparr>)
   = apsnd (\<lambda>g. g\<lparr>QueryStr := q\<rparr>) (condition_step L c (db, f))"
  by (cases c)
    (simp add: condition_step_def isFilterable_def recordSQL_QueryStr
      applyComplexCondition_QueryStr split: val.splits)

lemma applyQueryConditions_QueryStr:
  "applyQueryConditions L (f\<lparr>QueryStr := q\<rparr>) db conds
   = apsnd (\<lambda>g. g\<lparr>QueryStr := q\<rparr>) (applyQueryConditions L f db conds)"
  unfolding applyQueryConditions_def
  by (rule fold_QueryStr) (rule condition_step_QueryStr)

lemma join_step_QueryStr:
  "join_step L j (db, f\<lparr>QueryStr := q\<rparr>)
   = apsnd (\<lambda>g. g\<lparr>QueryStr := q\<rparr>) (join_step L j (db, f))"
  by (simp add: join_step_def recordSQL_QueryStr)

lemma PaginationQuery_without_dynamic_conditions:
  assumes "q = [] \<or> json_Unmarshal L q = None \<or> json_Unmarshal L q = Some []"
  shows "PaginationQuery L (f\<lparr>QueryStr := q\<rparr>) db
         = apsnd (\<lambda>g. g\<lparr>QueryStr := q\<rparr>) (PaginationQuery L (f\<lparr>QueryStr := []\<rparr>) db)"
proof -
  define stage2 where "stage2 = (\<lambda>f1. if Unscoped f1 then
                  (db @ [CUnscoped],
                   recordSQL L f1 ''UNSCOPED'' (VString ''include soft-deleted records''))
                else (db, f1))"
  define stage3 where "stage3 = (\<lambda>s2 :: DB \<times> Filter. if length (Joins (snd s2)) > 0
     then fold (join_step L) (Joins (snd s2)) s2 else s2)"
  define stage4 where "stage4 = (\<lambda>s3 :: DB \<times> Filter. if length (Filters (snd s3)) > 0
                then applyQueryConditions L (snd s3) (fst s3) (Filters (snd s3)) else s3)"
  define stage5 where "stage5 = (\<lambda>s4 :: DB \<times> Filter. if QueryStr (snd s4) \<noteq> [] then
           (case json_Unmarshal L (QueryStr (snd s4)) of
              Some queryMap \<Rightarrow> applyQueryConditions L (snd s4) (fst s4) queryMap
            | None \<Rightarrow> s4)
         else s4)"
  define stage1 where "stage1 = (\<lambda>f :: Filter. if Debug f then f\<lparr>sqlRecords := []\<rparr> else f)"
  have whole: "PaginationQuery L g db = stage5 (stage4 (stage3 (stage2 (stage1 g))))" for g
    unfolding PaginationQuery_stages Let_def stage5_def stage4_def stage3_def stage2_def
      stage1_def ..
  define u where "u = (\<lambda>q' (g :: Filter). g\<lparr>QueryStr := q'\<rparr>)"
  define f0 where "f0 = f\<lparr>QueryStr := []\<rparr>"
  have uf0: "f\<lparr>QueryStr := q\<rparr> = u q f0" and u0: "u [] f0 = f0"
    by (simp_all add: u_def f0_def)
  have c1: "stage1 (u q' g) = u q' (stage1 g)" for g q'
    by (simp add: stage1_def u_def)
  have c2: "stage2 (u q' g) = apsnd (u q') (stage2 g)" for g q'
    by (simp add: stage2_def u_def recordSQL_QueryStr)
  have c3: "stage3 (apsnd (u q') s) = apsnd (u q') (stage3 s)" for s q'
    by (cases s)
      (simp add: stage3_def u_def fold_QueryStr [of "join_step L", OF join_step_QueryStr])
  have c4: "stage4 (apsnd (u q') s) = apsnd (u q') (stage4 s)" for s q'
    by (cases s) (simp add: stage4_def u_def applyQueryConditions_QueryStr)
  have four: "stage4 (stage3 (stage2 (stage1 (u q' g))))
      = apsnd (u q') (stage4 (stage3 (stage2 (stage1 g))))" for g q'
    by (simp only: c1 c2 c3 c4)
  define s4 where "s4 = stage4 (stage3 (stage2 (stage1 f0)))"
  have e: "s4 = apsnd (u []) s4"
    using four [of "[]" f0] unfolding u0 s4_def [symmetric] .
  have q0: "QueryStr (snd s4) = []"
    by (subst e) (simp add: u_def)
  have left: "PaginationQuery L (u q f0) db = stage5 (apsnd (u q) s4)"
    by (simp only: whole four s4_def)
  have right: "PaginationQuery L f0 db = s4"
    by (simp add: whole [of f0] s4_def [symmetric] stage5_def q0)
  have "stage5 (apsnd (u q) s4) = apsnd (u q) s4"
    using assms
    by (cases s4) (auto simp: stage5_def u_def applyQueryConditions_def)
  with left right have "PaginationQuery L (u q f0) db = apsnd (u q) (PaginationQuery L f0 db)"
    by (simp only:)
  then show ?thesis by (simp add: u_def f0_def)
qed

text \<open>The two listing functions, path by path.\<close>

lemma effective_page_bound: "1 \<le> sint (effective_page p)"
  by (simp add: effective_page_def)

lemma effective_pageSize_bounds:
  "1 \<le> sint (effective_pageSize n) \<and> sint (effective_pageSize n) \<le> 500"
  by (simp add: effective_pageSize_def)

lemma ApplySortAndPagination_Filter:
  assumes "ApplySortAndPagination L f db = (db', g)"
  shows "\<exists>tr sql. g = f\<lparr>Page := effective_page (Page f),
           PageSize := effective_pageSize (PageSize f), sqlRecords := tr, finalSQL := sql\<rparr>"
  using ApplySortAndPagination_plan_frame [of L f db] assms by simp

lemma pipeline_Filter:
  assumes p: "PaginationQuery L f db = (db1, f1)"
    and a: "ApplySortAndPagination L f1 db1 = (db2, f2)"
  shows "\<exists>tr sql. f2 = f\<lparr>Page := effective_page (Page f),
           PageSize := effective_pageSize (PageSize f), sqlRecords := tr, finalSQL := sql\<rparr>"
proof -
  from p PaginationQuery_plan_trace [of L f db] have "trace_changed f f1" by simp
  then obtain tr1 where f1: "f1 = f\<lparr>sqlRecords := tr1\<rparr>" by (auto simp: trace_changed_iff)
  from ApplySortAndPagination_Filter [OF a] obtain tr sql where
    "f2 = f1\<lparr>Page := effective_page (Page f1), PageSize := effective_pageSize (PageSize f1),
              sqlRecords := tr, finalSQL := sql\<rparr>" by blast
  then have "f2 = f\<lparr>Page := effective_page (Page f),
      PageSize := effective_pageSize (PageSize f), sqlRecords := tr, finalSQL := sql\<rparr>"
    by (simp add: f1)
  then show ?thesis by blast
qed

lemma clamped_frame:
  assumes "g = f\<lparr>Page := effective_page (Page f), PageSize := effective_pageSize (PageSize f),
                sqlRecords := tr, finalSQL := sql\<rparr>"
  shows "Page g = effective_page (Page f) \<and> PageSize g = effective_pageSize (PageSize f)
         \<and> 1 \<le> sint (Page g) \<and> 1 \<le> sint (PageSize g) \<and> sint (PageSize g) \<le> 500
         \<and> g = f\<lparr>Page := Page g, PageSize := PageSize g, sqlRecords := sqlRecords g,
                  finalSQL := finalSQL g\<rparr>"
  by (simp add: assms effective_page_bound effective_pageSize_bounds)

lemma QueryWithFilter_unfold:
  assumes "PaginationQuery L f (db @ [CModel]) = (db1, f1)"
    and "ApplySortAndPagination L f1 db1 = (db2, f2)"
  shows "QueryWithFilter L E cs db f =
           ((case find_reply E cs db2 of Inl e \<Rightarrow> (None, Some e)
             | Inr result \<Rightarrow> (Some result, None)), f2, cs @ [Find db2])"
  by (simp add: QueryWithFilter_def assms split: sum.splits)

lemma QueryWithPagination_early:
  assumes "PaginationQuery L f (db @ [CModel]) = (db1, f1)"
    and "count_reply E cs db1 = Inl e \<or> count_reply E cs db1 = Inr 0"
  shows "QueryWithPagination L E cs db f =
           (\<lparr>res_rows = (case count_reply E cs db1 of Inl e \<Rightarrow> None | Inr c \<Rightarrow> Some []),
             res_total = 0, res_page = Page f, res_pageSize = PageSize f,
             res_err = (case count_reply E cs db1 of Inl e \<Rightarrow> Some e | Inr c \<Rightarrow> None)\<rparr>,
            f1, cs @ [Count db1])"
proof -
  from assms(1) PaginationQuery_plan_trace [of L f "db @ [CModel]"]
  have t: "trace_changed f f1" by simp
  from assms show ?thesis
    by (auto simp: QueryWithPagination_def trace_changedD [OF t])
qed

lemma QueryWithPagination_fetch:
  assumes "PaginationQuery L f (db @ [CModel]) = (db1, f1)"
    and "count_reply E cs db1 = Inr c" and "c \<noteq> 0"
    and "ApplySortAndPagination L f1 db1 = (db2, f2)"
  shows "QueryWithPagination L E cs db f =
           ((case find_reply E (cs @ [Count db1]) db2 of
               Inl e \<Rightarrow> \<lparr>res_rows = None, res_total = 0, res_page = Page f2,
                          res_pageSize = PageSize f2, res_err = Some e\<rparr>
             | Inr result \<Rightarrow> \<lparr>res_rows = Some result, res_total = c, res_page = Page f2,
                          res_pageSize = PageSize f2, res_err = None\<rparr>),
            f2, cs @ [Count db1, Find db2])"
  using assms by (simp add: QueryWithPagination_def split: sum.splits)

lemma pipeline_plan:
  assumes "PaginationQuery L f db = (db1, f1)"
    and "ApplySortAndPagination L f1 db1 = (db2, f2)"
  shows "db2 = db @ unscoped_clauses f @ map join_clause (Joins f) @ predicate_clauses L f
               @ concat (map (order_clauses f) (sort_tokens f)) @ page_clauses f"
proof -
  from assms(1) PaginationQuery_plan_trace [of L f db]
  have db1: "db1 = db @ unscoped_clauses f @ map join_clause (Joins f) @ predicate_clauses L f"
    and t: "trace_changed f f1" by simp_all
  from assms(2) ApplySortAndPagination_plan_frame [of L f1 db1]
  have "db2 = db1 @ concat (map (order_clauses f1) (sort_tokens f1)) @ page_clauses f1"
    by simp
  then show ?thesis
    by (simp add: db1 order_clauses_trace [OF t] sort_tokens_def page_clauses_def
        trace_changedD [OF t])
qed

lemma complex_step_between_other:
  assumes "\<And>a b. v \<noteq> VSlice [a, b]"
  shows "complex_step L field (''between'', v) s = s"
proof (cases s)
  case (Pair db f)
  show ?thesis
  proof (cases v)
    case (VSlice arr)
    with assms have "length arr \<noteq> 2"
      by (cases arr; cases "tl arr"; cases "tl (tl arr)") auto
    with Pair VSlice show ?thesis by (simp add: complex_step_def)
  qed (simp_all add: Pair complex_step_def)
qed

lemma complex_step_between_pair:
  "complex_step L field (''between'', VSlice [a, b]) (db, f) =
     (db @ [CWhere (field @ '' BETWEEN ? AND ?'') [a, b]],
      recordSQL L f (''BETWEEN '' @ field) (VSlice [a, b]))"
  by (simp add: complex_step_def)

text \<open>
  A trimmed string ends with no white-space rune, so the field of a sort token is blank
  only when it is empty.
\<close>

declare strip_runes.simps [simp del]

lemma HasPrefix_iff: "HasPrefix s w \<longleftrightarrow> (\<exists>r. s = w @ r)"
  by (induction s w rule: HasPrefix.induct) auto

lemma strip_runes_no_prefix:
  "w \<in> set ws \<Longrightarrow> w \<noteq> [] \<Longrightarrow> \<not> HasPrefix (strip_runes ws x) w"
proof (induction ws x rule: strip_runes.induct)
  case (1 ws s)
  show ?case
  proof (cases "find (\<lambda>w. w \<noteq> [] \<and> HasPrefix s w) ws")
    case None
    then have "strip_runes ws s = s" by (simp add: strip_runes.simps)
    moreover from None "1.prems" have "\<not> HasPrefix s w" by (auto simp: find_None_iff)
    ultimately show ?thesis by simp
  next
    case (Some w')
    then have "strip_runes ws s = strip_runes ws (drop (length w') s)"
      by (simp add: strip_runes.simps)
    with "1.IH" [OF Some] "1.prems" show ?thesis by simp
  qed
qed

lemma strip_runes_empty:
  "strip_runes ws x = [] \<Longrightarrow> x \<noteq> [] \<Longrightarrow> \<exists>w\<in>set ws. w \<noteq> [] \<and> (\<exists>z. x = z @ w)"
proof (induction ws x rule: strip_runes.induct)
  case (1 ws s)
  show ?case
  proof (cases "find (\<lambda>w. w \<noteq> [] \<and> HasPrefix s w) ws")
    case None
    then have "strip_runes ws s = s" by (simp add: strip_runes.simps)
    with "1.prems" show ?thesis by simp
  next
    case (Some w')
    then have w': "w' \<in> set ws" "w' \<noteq> []" "HasPrefix s w'"
      by (auto simp: find_Some_iff)
    then obtain r where s: "s = w' @ r" by (auto simp: HasPrefix_iff)
    from Some have eq: "strip_runes ws s = strip_runes ws (drop (length w') s)"
      by (simp add: strip_runes.simps)
    show ?thesis
    proof (cases "r = []")
      case True
      with s w' show ?thesis by auto
    next
      case False
      with "1.IH" [OF Some] eq "1.prems" s
      obtain w z where "w \<in> set ws" "w \<noteq> []" "r = z @ w" by auto
      with s show ?thesis by auto
    qed
  qed
qed

lemma space_runes_nonempty: "w \<in> set space_runes \<Longrightarrow> w \<noteq> []"
  by (auto simp: space_runes_def)

lemma TrimSpace_no_space_at_end:
  assumes "w \<in> set space_runes"
  shows "TrimSpace t \<noteq> z @ w"
proof
  assume "TrimSpace t = z @ w"
  then have "strip_runes (map rev space_runes) (rev (TrimLeftSpace t)) = rev w @ rev z"
    by (simp add: TrimSpace_def TrimRightSpace_def rev_swap)
  then have "HasPrefix (strip_runes (map rev space_runes) (rev (TrimLeftSpace t))) (rev w)"
    by (simp add: HasPrefix_iff)
  moreover from assms have "rev w \<in> set (map rev space_runes)" "rev w \<noteq> []"
    by (auto dest: space_runes_nonempty)
  ultimately show False using strip_runes_no_prefix by blast
qed

lemma blank_ends_with_space:
  assumes "x \<noteq> []" and "TrimSpace x = []"
  shows "\<exists>w\<in>set space_runes. \<exists>z. x = z @ w"
proof (cases "TrimLeftSpace x = []")
  case True
  with assms(1) strip_runes_empty [of space_runes x] show ?thesis
    by (auto simp: TrimLeftSpace_def)
next
  case False
  from assms(2) have "strip_runes (map rev space_runes) (rev (TrimLeftSpace x)) = []"
    by (simp add: TrimSpace_def TrimRightSpace_def)
  with False strip_runes_empty [of "map rev space_runes" "rev (TrimLeftSpace x)"]
  obtain w z where w: "w \<in> set space_runes" "rev w \<noteq> []" and "rev (TrimLeftSpace x) = z @ rev w"
    by auto
  then have "TrimLeftSpace x = w @ rev z" by (simp add: rev_swap)
  then have "HasPrefix (strip_runes space_runes x) w"
    by (simp add: TrimLeftSpace_def HasPrefix_iff)
  with w strip_runes_no_prefix [of w space_runes x] show ?thesis by simp
qed

lemma TrimSpace_Nil: "TrimSpace [] = []"
  by code_simp

lemma token_field_blank_iff: "TrimSpace (token_field t) = [] \<longleftrightarrow> token_field t = []"
proof
  assume b: "TrimSpace (token_field t) = []"
  show "token_field t = []"
  proof (rule ccontr)
    assume n: "token_field t \<noteq> []"
    from blank_ends_with_space [OF n b] obtain w z where
      w: "w \<in> set space_runes" and f: "token_field t = z @ w" by blast
    have "\<exists>k. token_field t = drop k (TrimSpace t)"
      by (auto simp: token_field_def TrimPrefix_def intro: exI [of _ 0])
    then obtain k where "token_field t = drop k (TrimSpace t)" ..
    with f have "TrimSpace t = (take k (TrimSpace t) @ z) @ w"
      by (metis append_assoc append_take_drop_id)
    with TrimSpace_no_space_at_end [OF w] show False by blast
  qed
next
  assume "token_field t = []"
  then show "TrimSpace (token_field t) = []" by (simp add: TrimSpace_Nil)
qed

lemma range_has_iff: "range_has ws x \<longleftrightarrow> x \<in> set ws"
  by (induction ws) auto

lemma isSortable_iff:
  "isSortable f field \<longleftrightarrow>
     TrimSpace field \<noteq> []
     \<and> (field = ''id'' \<or> field = ''created_at'' \<or> field = ''updated_at''
        \<or> field \<in> set (Sortable f))"
  by (auto simp: isSortable_def range_has_iff)

lemma token_field_Nil: "TrimSpace t = [] \<Longrightarrow> token_field t = []"
  by (simp add: token_field_def TrimPrefix_def)

lemma order_clauses_iff:
  "order_clauses f t =
     (if token_field t \<noteq> []
         \<and> (token_field t = ''id'' \<or> token_field t = ''created_at''
            \<or> token_field t = ''updated_at'' \<or> token_field t \<in> set (Sortable f))
      then [COrder (token_field t @ '' '' @ (if token_descending t then ''DESC'' else ''ASC''))]
      else [])"
  using token_field_Nil [of t]
  by (auto simp: order_clauses_def isSortable_iff token_field_blank_iff)

section \<open>Properties\<close>

subsection \<open>The filtered listing\<close>

text \<open>
  C1, as stated: QueryWithFilter returns all rows that match the filter conditions, cut by
  no row limit. It fails: on a table of eleven rows the zero Filter, which has no
  condition, fetches with offset 0 and limit 10 and gets ten rows.
\<close>

theorem listing_is_truncated_counterexample:
  "QueryWithFilter sample_env (table_engine [1, 2, 3, 4, 5, 6, 7, 8, 9, 10, 11 :: nat]) [] []
     zero_Filter =
     ((Some [1, 2, 3, 4, 5, 6, 7, 8, 9, 10], None), zero_Filter\<lparr>Page := 1, PageSize := 10\<rparr>,
      [Find [CModel, COffset 0, CLimit 10]])
   \<and> predicate_clauses sample_env zero_Filter = []
   \<and> length [1, 2, 3, 4, 5, 6, 7, 8, 9, 10, 11 :: nat] = 11
   \<and> length [1, 2, 3, 4, 5, 6, 7, 8, 9, 10 :: nat] = 10"
  by code_simp

text \<open>
  C1, amended: QueryWithFilter issues one storage call, the fetch, and no count. The
  fetched plan is the caller's plan with the model, the unscoped widening, the joins, the
  predicates, the order clauses and then offset \<open>(page - 1) * pageSize\<close> and limit
  \<open>pageSize\<close>, for the clamped page and a clamped page size between 1 and 500. The rows
  of the fetch are returned as they are; a fetch error is returned with a nil slice.
\<close>

theorem QueryWithFilter_fetches_one_page:
  assumes "PaginationQuery L f (db @ [CModel]) = (db1, f1)"
    and "ApplySortAndPagination L f1 db1 = (db2, f2)"
  shows "QueryWithFilter L E cs db f =
           ((case find_reply E cs db2 of Inl e \<Rightarrow> (None, Some e)
             | Inr result \<Rightarrow> (Some result, None)), f2, cs @ [Find db2])
         \<and> db2 = db @ [CModel] @ unscoped_clauses f @ map join_clause (Joins f)
                 @ predicate_clauses L f @ concat (map (order_clauses f) (sort_tokens f))
                 @ [COffset ((Page f2 - 1) * PageSize f2), CLimit (PageSize f2)]
         \<and> Page f2 = effective_page (Page f)
         \<and> PageSize f2 = effective_pageSize (PageSize f)
         \<and> 1 \<le> sint (PageSize f2) \<and> sint (PageSize f2) \<le> 500"
proof -
  from pipeline_Filter [OF assms] obtain tr sql where
    f2: "f2 = f\<lparr>Page := effective_page (Page f), PageSize := effective_pageSize (PageSize f),
               sqlRecords := tr, finalSQL := sql\<rparr>" by blast
  then have pg: "Page f2 = effective_page (Page f)"
    and ps: "PageSize f2 = effective_pageSize (PageSize f)" by simp_all
  from pipeline_plan [OF assms]
  have "db2 = db @ [CModel] @ unscoped_clauses f @ map join_clause (Joins f)
                 @ predicate_clauses L f @ concat (map (order_clauses f) (sort_tokens f))
                 @ page_clauses f" by simp
  then have plan: "db2 = db @ [CModel] @ unscoped_clauses f @ map join_clause (Joins f)
                 @ predicate_clauses L f @ concat (map (order_clauses f) (sort_tokens f))
                 @ [COffset ((Page f2 - 1) * PageSize f2), CLimit (PageSize f2)]"
    by (simp add: page_clauses_def pg ps)
  from QueryWithFilter_unfold [OF assms, of E cs] plan pg ps
    effective_pageSize_bounds [of "PageSize f"]
  show ?thesis by (simp only: simp_thms)
qed

theorem QueryWithFilter_fetches_one_page_witness:
  "PaginationQuery sample_env unclamped_Filter ([] @ [CModel]) = ([CModel], unclamped_Filter)
   \<and> ApplySortAndPagination sample_env unclamped_Filter [CModel] =
       ([CModel, COrder ''id ASC'', COffset 0, CLimit 500],
        unclamped_Filter\<lparr>Page := 1, PageSize := 500\<rparr>)
   \<and> QueryWithFilter sample_env (table_engine [7, 8, 9 :: nat]) [] [] unclamped_Filter =
       ((Some [7, 8, 9], None), unclamped_Filter\<lparr>Page := 1, PageSize := 500\<rparr>,
        [Find [CModel, COrder ''id ASC'', COffset 0, CLimit 500]])"
proof -
  have h1: "PaginationQuery sample_env unclamped_Filter ([] @ [CModel]) =
      ([CModel], unclamped_Filter)"
    by code_simp
  have h2: "ApplySortAndPagination sample_env unclamped_Filter [CModel] =
       ([CModel, COrder ''id ASC'', COffset 0, CLimit 500],
        unclamped_Filter\<lparr>Page := 1, PageSize := 500\<rparr>)"
    by code_simp
  have e: "(case find_reply (table_engine [7, 8, 9 :: nat]) []
             [CModel, COrder ''id ASC'', COffset 0, CLimit 500] of
             Inl e \<Rightarrow> (None, Some e) | Inr result \<Rightarrow> (Some result, None)) =
           (Some [7, 8, 9], None)"
    by code_simp
  from conjunct1 [OF QueryWithFilter_fetches_one_page [OF h1 h2, of "table_engine [7, 8, 9 :: nat]" "[]"]]
  have h3: "QueryWithFilter sample_env (table_engine [7, 8, 9 :: nat]) [] [] unclamped_Filter =
       ((Some [7, 8, 9], None), unclamped_Filter\<lparr>Page := 1, PageSize := 500\<rparr>,
        [Find [CModel, COrder ''id ASC'', COffset 0, CLimit 500]])"
    by (simp only: e append_Nil)
  from h1 h2 h3 show ?thesis by (intro conjI)
qed

subsection \<open>The page values that the paginated listing returns\<close>

text \<open>
  C2. The paginated listing is to return the clamped page and page size on every path.
  On its two early returns QueryWithPagination returns the caller's values instead: with
  page 0 and page size 0 and a count of zero it returns 0 and 0, not 1 and 10; with page
  size 1000 and a failing count it returns 1000, not 500.
\<close>

theorem page_not_clamped_on_early_return:
  "QueryWithPagination sample_env (table_engine ([] :: nat list)) [] [] zero_Filter =
     (\<lparr>res_rows = Some [], res_total = 0, res_page = 0, res_pageSize = 0, res_err = None\<rparr>,
      zero_Filter, [Count [CModel]])
   \<and> QueryWithPagination sample_env
       ((table_engine ([] :: nat list))\<lparr>count_reply := \<lambda>cs db. Inl (ErrStorage ''down'')\<rparr>)
       [] [] (zero_Filter\<lparr>PageSize := 1000\<rparr>) =
     (\<lparr>res_rows = None, res_total = 0, res_page = 0, res_pageSize = 1000,
       res_err = Some (ErrStorage ''down'')\<rparr>,
      zero_Filter\<lparr>PageSize := 1000\<rparr>, [Count [CModel]])
   \<and> effective_page 0 = 1 \<and> effective_pageSize 0 = 10 \<and> effective_pageSize 1000 = 500"
  by code_simp

subsection \<open>The short circuit of the paginated listing\<close>

text \<open>
  C3. When the count query of QueryWithPagination replies 0, the call returns the empty
  slice, total 0 and no error. The call log gains the count and nothing else, so no fetch
  is issued; the Filter returned is the one PaginationQuery left, which differs from the
  caller's in the trace only, and the counted plan ends with the predicate clauses: the
  sort and pagination stage has not run.
\<close>

theorem count_zero_short_circuits:
  assumes "PaginationQuery L f (db @ [CModel]) = (queryDB, f1)"
    and "count_reply E cs queryDB = Inr 0"
  shows "QueryWithPagination L E cs db f =
           (\<lparr>res_rows = Some [], res_total = 0, res_page = Page f, res_pageSize = PageSize f,
             res_err = None\<rparr>, f1, cs @ [Count queryDB])
         \<and> f1 = f\<lparr>sqlRecords := sqlRecords f1\<rparr>
         \<and> queryDB = db @ [CModel] @ unscoped_clauses f @ map join_clause (Joins f)
                       @ predicate_clauses L f"
proof -
  from assms(1) PaginationQuery_plan_trace [of L f "db @ [CModel]"]
  have plan: "queryDB = db @ [CModel] @ unscoped_clauses f @ map join_clause (Joins f)
                       @ predicate_clauses L f"
    and t: "trace_changed f f1" by simp_all
  have "QueryWithPagination L E cs db f =
           (\<lparr>res_rows = Some [], res_total = 0, res_page = Page f1, res_pageSize = PageSize f1,
             res_err = None\<rparr>, f1, cs @ [Count queryDB])"
    by (simp add: QueryWithPagination_def assms)
  with plan t show ?thesis
    by (simp add: trace_changedD [OF t] trace_changed_def [symmetric])
qed

theorem count_zero_short_circuits_witness:
  "PaginationQuery sample_env sample_Filter ([] @ [CModel]) =
     ([CModel, CUnscoped, CJoins ''LEFT JOIN roles ON users.role_id = roles.id'',
       CWhere ''status = ?'' [VString ''active''],
       CWhere ''n BETWEEN ? AND ?'' [VInt 1, VInt 2],
       CWhere ''age >= ?'' [VFloat64 0x4032000000000000]], sample_Filter)
   \<and> count_reply (table_engine ([] :: nat list)) []
       [CModel, CUnscoped, CJoins ''LEFT JOIN roles ON users.role_id = roles.id'',
        CWhere ''status = ?'' [VString ''active''],
        CWhere ''n BETWEEN ? AND ?'' [VInt 1, VInt 2],
        CWhere ''age >= ?'' [VFloat64 0x4032000000000000]] = Inr 0
   \<and> QueryWithPagination sample_env (table_engine ([] :: nat list)) [] [] sample_Filter =
       (\<lparr>res_rows = Some [], res_total = 0, res_page = 2, res_pageSize = 20,
         res_err = None\<rparr>, sample_Filter,
        [Count [CModel, CUnscoped, CJoins ''LEFT JOIN roles ON users.role_id = roles.id'',
           CWhere ''status = ?'' [VString ''active''],
           CWhere ''n BETWEEN ? AND ?'' [VInt 1, VInt 2],
           CWhere ''age >= ?'' [VFloat64 0x4032000000000000]]])"
proof -
  have h1: "PaginationQuery sample_env sample_Filter ([] @ [CModel]) =
     ([CModel, CUnscoped, CJoins ''LEFT JOIN roles ON users.role_id = roles.id'',
       CWhere ''status = ?'' [VString ''active''],
       CWhere ''n BETWEEN ? AND ?'' [VInt 1, VInt 2],
       CWhere ''age >= ?'' [VFloat64 0x4032000000000000]], sample_Filter)"
    by code_simp
  have h2: "count_reply (table_engine ([] :: nat list)) []
       [CModel, CUnscoped, CJoins ''LEFT JOIN roles ON users.role_id = roles.id'',
        CWhere ''status = ?'' [VString ''active''],
        CWhere ''n BETWEEN ? AND ?'' [VInt 1, VInt 2],
        CWhere ''age >= ?'' [VFloat64 0x4032000000000000]] = Inr 0"
    by (simp add: table_engine_def)
  have p: "Page sample_Filter = 2" "PageSize sample_Filter = 20"
    by (simp_all add: sample_Filter_def)
  from count_zero_short_circuits [OF h1 h2]
  have "QueryWithPagination sample_env (table_engine ([] :: nat list)) [] [] sample_Filter =
       (\<lparr>res_rows = Some [], res_total = 0, res_page = Page sample_Filter,
         res_pageSize = PageSize sample_Filter, res_err = None\<rparr>, sample_Filter,
        [] @ [Count [CModel, CUnscoped, CJoins ''LEFT JOIN roles ON users.role_id = roles.id'',
           CWhere ''status = ?'' [VString ''active''],
           CWhere ''n BETWEEN ? AND ?'' [VInt 1, VInt 2],
           CWhere ''age >= ?'' [VFloat64 0x4032000000000000]]])"
    by (elim conjE)
  then have h3: "QueryWithPagination sample_env (table_engine ([] :: nat list)) [] []
       sample_Filter =
       (\<lparr>res_rows = Some [], res_total = 0, res_page = 2, res_pageSize = 20,
         res_err = None\<rparr>, sample_Filter,
        [Count [CModel, CUnscoped, CJoins ''LEFT JOIN roles ON users.role_id = roles.id'',
           CWhere ''status = ?'' [VString ''active''],
           CWhere ''n BETWEEN ? AND ?'' [VInt 1, VInt 2],
           CWhere ''age >= ?'' [VFloat64 0x4032000000000000]]])"
    by (simp only: p append_Nil)
  show ?thesis
    by (intro conjI) (rule h1, rule h2, rule h3)
qed

subsection \<open>The order of the clause groups\<close>

text \<open>
  C4. Run on a plan \<open>db\<close>, PaginationQuery followed by ApplySortAndPagination appends to
  it, in this order: the unscoped widening, the join clauses in the order of \<open>Joins\<close>,
  the predicate clauses of the static filters, the predicate clauses of the decoded dynamic
  query, the order clauses in the order of the sort tokens, and offset and limit. Every
  clause of a part belongs to that part's group, so the groups of the appended clauses
  never decrease: no clause of a later group comes before a clause of an earlier one.
\<close>

theorem pipeline_clause_groups_in_fixed_order:
  assumes "PaginationQuery L f db = (db1, f1)"
    and "ApplySortAndPagination L f1 db1 = (db2, f2)"
  shows "db2 = db @ unscoped_clauses f @ map join_clause (Joins f)
               @ (concat (map (allowed_clauses L f) (Filters f))
                  @ concat (map (allowed_clauses L f) (dynamic_conditions L f)))
               @ concat (map (order_clauses f) (sort_tokens f)) @ page_clauses f
         \<and> clause_group ` set (unscoped_clauses f) \<subseteq> {1}
         \<and> clause_group ` set (map join_clause (Joins f)) \<subseteq> {2}
         \<and> clause_group ` set (concat (map (allowed_clauses L f) (Filters f))
                                @ concat (map (allowed_clauses L f) (dynamic_conditions L f)))
             \<subseteq> {3}
         \<and> clause_group ` set (concat (map (order_clauses f) (sort_tokens f))) \<subseteq> {4}
         \<and> clause_group ` set (page_clauses f) \<subseteq> {5}
         \<and> sorted (map clause_group (drop (length db) db2))"
proof -
  from assms(1) PaginationQuery_plan_trace [of L f db]
  have db1: "db1 = db @ unscoped_clauses f @ map join_clause (Joins f) @ predicate_clauses L f"
    and t: "trace_changed f f1" by simp_all
  from assms(2) ApplySortAndPagination_plan_frame [of L f1 db1]
  have "db2 = db1 @ concat (map (order_clauses f1) (sort_tokens f1)) @ page_clauses f1"
    by simp
  then have db2: "db2 = db1 @ concat (map (order_clauses f) (sort_tokens f)) @ page_clauses f"
    by (simp add: order_clauses_trace [OF t] sort_tokens_def page_clauses_def
        trace_changedD [OF t])
  have whole: "db2 = db @ (unscoped_clauses f @ map join_clause (Joins f)
      @ predicate_clauses L f @ concat (map (order_clauses f) (sort_tokens f))
      @ page_clauses f)"
    by (simp add: db2 db1)
  have "drop (length db) db2 = unscoped_clauses f @ map join_clause (Joins f)
      @ predicate_clauses L f @ concat (map (order_clauses f) (sort_tokens f))
      @ page_clauses f"
    by (subst whole) simp
  then have s: "sorted (map clause_group (drop (length db) db2))"
    by (simp only: compiled_groups_sorted)
  have g1: "clause_group ` set (unscoped_clauses f) \<subseteq> {1}"
    by (auto dest: unscoped_clauses_group)
  have g2: "clause_group ` set (map join_clause (Joins f)) \<subseteq> {2}"
    by (auto simp: join_clause_group)
  have g3: "clause_group ` set (predicate_clauses L f) \<subseteq> {3}"
    by (auto dest: predicate_clauses_group)
  have g4: "clause_group ` set (concat (map (order_clauses f) (sort_tokens f))) \<subseteq> {4}"
    by (auto dest: order_clauses_group)
  have g5: "clause_group ` set (page_clauses f) \<subseteq> {5}"
    by (auto dest: page_clauses_group)
  from whole s g1 g2 g3 g4 g5 show ?thesis
    by (simp only: predicate_clauses_def append_assoc simp_thms)
qed

theorem pipeline_clause_groups_witness:
  "PaginationQuery sample_env sample_Filter [CModel] =
     ([CModel, CUnscoped, CJoins ''LEFT JOIN roles ON users.role_id = roles.id'',
       CWhere ''status = ?'' [VString ''active''],
       CWhere ''n BETWEEN ? AND ?'' [VInt 1, VInt 2],
       CWhere ''age >= ?'' [VFloat64 0x4032000000000000]], sample_Filter)
   \<and> ApplySortAndPagination sample_env sample_Filter
       [CModel, CUnscoped, CJoins ''LEFT JOIN roles ON users.role_id = roles.id'',
        CWhere ''status = ?'' [VString ''active''],
        CWhere ''n BETWEEN ? AND ?'' [VInt 1, VInt 2],
        CWhere ''age >= ?'' [VFloat64 0x4032000000000000]] =
     ([CModel, CUnscoped, CJoins ''LEFT JOIN roles ON users.role_id = roles.id'',
       CWhere ''status = ?'' [VString ''active''],
       CWhere ''n BETWEEN ? AND ?'' [VInt 1, VInt 2],
       CWhere ''age >= ?'' [VFloat64 0x4032000000000000],
       COrder ''created_at DESC'', COrder ''id ASC'', COffset 20, CLimit 20], sample_Filter)
   \<and> sorted (map clause_group
        [CUnscoped, CJoins ''LEFT JOIN roles ON users.role_id = roles.id'',
         CWhere ''status = ?'' [VString ''active''],
         CWhere ''n BETWEEN ? AND ?'' [VInt 1, VInt 2],
         CWhere ''age >= ?'' [VFloat64 0x4032000000000000],
         COrder ''created_at DESC'', COrder ''id ASC'', COffset 20, CLimit 20])"
proof -
  have h1: "PaginationQuery sample_env sample_Filter [CModel] =
     ([CModel, CUnscoped, CJoins ''LEFT JOIN roles ON users.role_id = roles.id'',
       CWhere ''status = ?'' [VString ''active''],
       CWhere ''n BETWEEN ? AND ?'' [VInt 1, VInt 2],
       CWhere ''age >= ?'' [VFloat64 0x4032000000000000]], sample_Filter)"
    by code_simp
  have h2: "ApplySortAndPagination sample_env sample_Filter
       [CModel, CUnscoped, CJoins ''LEFT JOIN roles ON users.role_id = roles.id'',
        CWhere ''status = ?'' [VString ''active''],
        CWhere ''n BETWEEN ? AND ?'' [VInt 1, VInt 2],
        CWhere ''age >= ?'' [VFloat64 0x4032000000000000]] =
     ([CModel, CUnscoped, CJoins ''LEFT JOIN roles ON users.role_id = roles.id'',
       CWhere ''status = ?'' [VString ''active''],
       CWhere ''n BETWEEN ? AND ?'' [VInt 1, VInt 2],
       CWhere ''age >= ?'' [VFloat64 0x4032000000000000],
       COrder ''created_at DESC'', COrder ''id ASC'', COffset 20, CLimit 20], sample_Filter)"
    by code_simp
  from pipeline_clause_groups_in_fixed_order [OF h1 h2]
  have "sorted (map clause_group (drop (length [CModel])
       [CModel, CUnscoped, CJoins ''LEFT JOIN roles ON users.role_id = roles.id'',
        CWhere ''status = ?'' [VString ''active''],
        CWhere ''n BETWEEN ? AND ?'' [VInt 1, VInt 2],
        CWhere ''age >= ?'' [VFloat64 0x4032000000000000],
        COrder ''created_at DESC'', COrder ''id ASC'', COffset 20, CLimit 20]))"
    by (elim conjE)
  then have h3: "sorted (map clause_group
        [CUnscoped, CJoins ''LEFT JOIN roles ON users.role_id = roles.id'',
         CWhere ''status = ?'' [VString ''active''],
         CWhere ''n BETWEEN ? AND ?'' [VInt 1, VInt 2],
         CWhere ''age >= ?'' [VFloat64 0x4032000000000000],
         COrder ''created_at DESC'', COrder ''id ASC'', COffset 20, CLimit 20])"
    by (simp only: list.size drop_Suc_Cons drop_0 One_nat_def add_0)
  show ?thesis
    by (intro conjI) (rule h1, rule h2, rule h3)
qed

subsection \<open>Identifier zero\<close>

text \<open>
  C5. GetInfoById, UpdateByIdWithMap, DeleteById and SoftDeleteById, called with id 0,
  return the error InvalidId, and the call log of the storage collaborator is the one the
  operation started with: no call was issued, for every engine and every plan.
\<close>

theorem id_zero_is_InvalidId_without_storage_call:
  "GetInfoById E cs db 0 = (Inl InvalidId, cs)
   \<and> UpdateByIdWithMap E cs db 0 updates = (Some InvalidId, cs)
   \<and> DeleteById E cs db 0 = (Some InvalidId, cs)
   \<and> SoftDeleteById E cs db 0 = (Some InvalidId, cs)"
  by (simp add: GetInfoById_def UpdateByIdWithMap_def DeleteById_def SoftDeleteById_def
      InvalidId_def)

subsection \<open>The open allow-list of filters\<close>



subsection \<open>The allow-list of sort fields\<close>

text \<open>
  C7, as stated: the token's field, trimmed and without its leading \<open>-\<close>, gets an ORDER
  clause if and only if it is one of id, created_at, updated_at or a member of
  \<open>Sortable\<close>. It fails for the token \<open>-\<close> when \<open>Sortable\<close> holds the empty string: the
  field is empty and a member of \<open>Sortable\<close>, and isSortable rejects it as blank.
\<close>

theorem blank_field_in_Sortable_counterexample:
  "token_field ''-'' \<in> set (Sortable (zero_Filter\<lparr>Sortable := [[]]\<rparr>))
   \<and> fst (sort_step sample_env ''-'' ([], zero_Filter\<lparr>Sortable := [[]]\<rparr>)) = []
   \<and> fst (ApplySortAndPagination sample_env (zero_Filter\<lparr>Sortable := [[]], Sort := ''-''\<rparr>) [])
       = [COffset 0, CLimit 10]"
  by code_simp

text \<open>
  C7, amended: one round of the sort loop appends an ORDER clause (with DESC for a token
  that began with \<open>-\<close>, ASC otherwise) if and only if the token's field is not empty and
  is one of id, created_at, updated_at or a member of \<open>Sortable\<close>, and appends nothing
  otherwise; with an empty \<open>Sortable\<close> exactly the three fixed fields get a clause.
  isSortable accepts a field exactly when it is not blank and is one of the three or a
  member of \<open>Sortable\<close>. ApplySortAndPagination appends the clauses of the tokens of
  \<open>Sort\<close> in their order, then offset and limit. There is no error result.
\<close>

theorem order_clause_iff_field_sortable_and_not_empty:
  "fst (sort_step L t (db, f)) =
     db @ (if token_field t \<noteq> []
              \<and> (token_field t = ''id'' \<or> token_field t = ''created_at''
                 \<or> token_field t = ''updated_at'' \<or> token_field t \<in> set (Sortable f))
           then [COrder (token_field t @ '' ''
                         @ (if token_descending t then ''DESC'' else ''ASC''))]
           else [])
   \<and> (Sortable f = [] \<longrightarrow>
        fst (sort_step L t (db, f)) =
          db @ (if token_field t = ''id'' \<or> token_field t = ''created_at''
                   \<or> token_field t = ''updated_at''
                then [COrder (token_field t @ '' ''
                              @ (if token_descending t then ''DESC'' else ''ASC''))]
                else []))
   \<and> (isSortable f field \<longleftrightarrow>
        TrimSpace field \<noteq> []
        \<and> (field = ''id'' \<or> field = ''created_at'' \<or> field = ''updated_at''
           \<or> field \<in> set (Sortable f)))
   \<and> fst (ApplySortAndPagination L f db) =
       db @ concat (map (\<lambda>t. fst (sort_step L t ([], f))) (sort_tokens f)) @ page_clauses f"
proof -
  have a: "fst (sort_step L t (db, f)) = db @ order_clauses f t" for t db
    by (rule sort_step_plan)
  have b: "(\<lambda>t. fst (sort_step L t ([], f))) = order_clauses f"
    by (simp add: fun_eq_iff a)
  have c: "fst (ApplySortAndPagination L f db) =
       db @ concat (map (\<lambda>t. fst (sort_step L t ([], f))) (sort_tokens f)) @ page_clauses f"
    using ApplySortAndPagination_plan_frame [of L f db] by (simp only: b)
  have d: "Sortable f = [] \<longrightarrow>
        fst (sort_step L t (db, f)) =
          db @ (if token_field t = ''id'' \<or> token_field t = ''created_at''
                   \<or> token_field t = ''updated_at''
                then [COrder (token_field t @ '' ''
                              @ (if token_descending t then ''DESC'' else ''ASC''))]
                else [])"
    by (auto simp: a order_clauses_iff)
  from a [of t db] c d isSortable_iff [of f field] show ?thesis
    by (simp only: order_clauses_iff simp_thms)
qed

theorem order_clause_iff_witness:
  "fst (sort_step sample_env '' -created_at '' ([], sample_Filter)) = [COrder ''created_at DESC'']
   \<and> Sortable sample_Filter = []
   \<and> fst (sort_step sample_env ''name'' ([], sample_Filter)) = []
   \<and> fst (sort_step sample_env ''name'' ([], sample_Filter\<lparr>Sortable := [''name'']\<rparr>))
       = [COrder ''name ASC'']"
proof -
  note t1 = order_clause_iff_field_sortable_and_not_empty
    [of sample_env "'' -created_at ''" "[]" sample_Filter "''id''"]
  note t2 = order_clause_iff_field_sortable_and_not_empty
    [of sample_env "''name''" "[]" sample_Filter "''id''"]
  note t3 = order_clause_iff_field_sortable_and_not_empty
    [of sample_env "''name''" "[]" "sample_Filter\<lparr>Sortable := [''name'']\<rparr>" "''id''"]
  have h: "Sortable sample_Filter = []"
    by code_simp
  have e1: "[] @ (if token_field '' -created_at '' \<noteq> []
              \<and> (token_field '' -created_at '' = ''id''
                 \<or> token_field '' -created_at '' = ''created_at''
                 \<or> token_field '' -created_at '' = ''updated_at''
                 \<or> token_field '' -created_at '' \<in> set (Sortable sample_Filter))
           then [COrder (token_field '' -created_at '' @ '' ''
                         @ (if token_descending '' -created_at '' then ''DESC'' else ''ASC''))]
           else []) = [COrder ''created_at DESC'']"
    by code_simp
  have e2: "[] @ (if token_field ''name'' = ''id'' \<or> token_field ''name'' = ''created_at''
                   \<or> token_field ''name'' = ''updated_at''
                then [COrder (token_field ''name'' @ '' ''
                              @ (if token_descending ''name'' then ''DESC'' else ''ASC''))]
                else []) = []"
    by code_simp
  have e3: "[] @ (if token_field ''name'' \<noteq> []
              \<and> (token_field ''name'' = ''id''
                 \<or> token_field ''name'' = ''created_at''
                 \<or> token_field ''name'' = ''updated_at''
                 \<or> token_field ''name'' \<in> set (Sortable (sample_Filter\<lparr>Sortable := [''name'']\<rparr>)))
           then [COrder (token_field ''name'' @ '' ''
                         @ (if token_descending ''name'' then ''DESC'' else ''ASC''))]
           else []) = [COrder ''name ASC'']"
    by code_simp
  have c1: "fst (sort_step sample_env '' -created_at '' ([], sample_Filter))
      = [COrder ''created_at DESC'']"
    using conjunct1 [OF t1] e1 by (rule trans)
  have c2: "fst (sort_step sample_env ''name'' ([], sample_Filter)) = []"
    using mp [OF conjunct1 [OF conjunct2 [OF t2]] h] e2 by (rule trans)
  have c3: "fst (sort_step sample_env ''name'' ([], sample_Filter\<lparr>Sortable := [''name'']\<rparr>))
       = [COrder ''name ASC'']"
    using conjunct1 [OF t3] e3 by (rule trans)
  from c1 h c2 c3 show ?thesis by (intro conjI)
qed

subsection \<open>A dynamic query that does not decode\<close>

text \<open>
  C8. When \<open>json.Unmarshal\<close> rejects the query string (or decodes it to no entry, as it
  does for \<open>null\<close>), the dynamic query contributes no condition: PaginationQuery returns
  the plan that it returns for the same Filter with an empty query string, and the same
  Filter up to the query string itself. PaginationQuery has no error result.
\<close>

theorem undecodable_QueryStr_adds_no_clause:
  assumes "json_Unmarshal L q = None \<or> json_Unmarshal L q = Some []"
  shows "dynamic_conditions L (f\<lparr>QueryStr := q\<rparr>) = []
         \<and> fst (PaginationQuery L (f\<lparr>QueryStr := q\<rparr>) db)
             = fst (PaginationQuery L (f\<lparr>QueryStr := []\<rparr>) db)
         \<and> snd (PaginationQuery L (f\<lparr>QueryStr := q\<rparr>) db)
             = (snd (PaginationQuery L (f\<lparr>QueryStr := []\<rparr>) db))\<lparr>QueryStr := q\<rparr>"
proof -
  from assms have d: "dynamic_conditions L (f\<lparr>QueryStr := q\<rparr>) = []"
    by (auto simp: dynamic_conditions_def)
  from assms have "q = [] \<or> json_Unmarshal L q = None \<or> json_Unmarshal L q = Some []"
    by blast
  from PaginationQuery_without_dynamic_conditions [OF this, of f db] d show ?thesis
    by simp
qed

theorem undecodable_QueryStr_witness:
  "json_Unmarshal sample_env ''{not json'' = None
   \<and> PaginationQuery sample_env (sample_Filter\<lparr>QueryStr := ''{not json''\<rparr>) [] =
       ([CUnscoped, CJoins ''LEFT JOIN roles ON users.role_id = roles.id'',
         CWhere ''status = ?'' [VString ''active''],
         CWhere ''n BETWEEN ? AND ?'' [VInt 1, VInt 2]],
        sample_Filter\<lparr>QueryStr := ''{not json''\<rparr>)"
proof -
  have h: "json_Unmarshal sample_env ''{not json'' = None"
    by code_simp
  then have h': "json_Unmarshal sample_env ''{not json'' = None
      \<or> json_Unmarshal sample_env ''{not json'' = Some []" ..
  have e: "PaginationQuery sample_env (sample_Filter\<lparr>QueryStr := []\<rparr>) [] =
       ([CUnscoped, CJoins ''LEFT JOIN roles ON users.role_id = roles.id'',
         CWhere ''status = ?'' [VString ''active''],
         CWhere ''n BETWEEN ? AND ?'' [VInt 1, VInt 2]],
        sample_Filter\<lparr>QueryStr := []\<rparr>)"
    by code_simp
  from undecodable_QueryStr_adds_no_clause [OF h', of sample_Filter "[]"]
  have "PaginationQuery sample_env (sample_Filter\<lparr>QueryStr := ''{not json''\<rparr>) [] =
       ([CUnscoped, CJoins ''LEFT JOIN roles ON users.role_id = roles.id'',
         CWhere ''status = ?'' [VString ''active''],
         CWhere ''n BETWEEN ? AND ?'' [VInt 1, VInt 2]],
        sample_Filter\<lparr>QueryStr := ''{not json''\<rparr>)"
    by (simp add: e prod_eq_iff)
  with h show ?thesis by (intro conjI)
qed

subsection \<open>The operator between\<close>

text \<open>
  C9, as stated: a between whose value is a sequence of two elements emits one range
  clause. It fails for a \<open>[]string\<close> of two elements, which the conditions accept as a
  sequence elsewhere: the type assertion \<open>value.([]interface{})\<close> rejects it, and no
  clause is emitted.
\<close>

theorem between_two_strings_counterexample:
  "is_sequence (VStrings [''18'', ''30'']) \<and> length [''18'', ''30''] = 2
   \<and> applyComplexCondition sample_env zero_Filter [] ''age''
        [(''between'', VStrings [''18'', ''30''])] = ([], zero_Filter)"
  by code_simp

text \<open>
  C9, amended: an entry \<open>between\<close> whose value is not a \<open>[]interface{}\<close> of exactly two
  elements leaves plan and Filter as they are, whatever stands before and after it in the
  operator map; one whose value is a \<open>[]interface{}\<close> of two elements appends exactly one
  clause \<open>field BETWEEN ? AND ?\<close> bound to the two elements in order. applyComplexCondition
  has no error result.
\<close>

theorem between_needs_a_generic_pair:
  "((\<forall>a b. v \<noteq> VSlice [a, b]) \<longrightarrow>
      applyComplexCondition L f db field (pre @ (''between'', v) # post)
      = applyComplexCondition L f db field (pre @ post))
   \<and> applyComplexCondition L f db field (pre @ (''between'', VSlice [a, b]) # post)
       = (case applyComplexCondition L f db field pre of
            (db1, f1) \<Rightarrow>
              applyComplexCondition L (recordSQL L f1 (''BETWEEN '' @ field) (VSlice [a, b]))
                (db1 @ [CWhere (field @ '' BETWEEN ? AND ?'') [a, b]]) field post)"
proof (intro conjI impI)
  assume "\<forall>a b. v \<noteq> VSlice [a, b]"
  then have "complex_step L field (''between'', v) s = s" for s
    by (intro complex_step_between_other) simp
  then show "applyComplexCondition L f db field (pre @ (''between'', v) # post)
      = applyComplexCondition L f db field (pre @ post)"
    by (simp add: applyComplexCondition_def)
next
  obtain db1 f1 where p: "fold (complex_step L field) pre (db, f) = (db1, f1)"
    by (cases "fold (complex_step L field) pre (db, f)")
  then show "applyComplexCondition L f db field (pre @ (''between'', VSlice [a, b]) # post)
       = (case applyComplexCondition L f db field pre of
            (db1, f1) \<Rightarrow>
              applyComplexCondition L (recordSQL L f1 (''BETWEEN '' @ field) (VSlice [a, b]))
                (db1 @ [CWhere (field @ '' BETWEEN ? AND ?'') [a, b]]) field post)"
    by (simp add: applyComplexCondition_def complex_step_between_pair)
qed

theorem between_needs_a_generic_pair_witness:
  "applyComplexCondition sample_env zero_Filter [] ''age''
     ([(''gte'', VInt 1)] @ (''between'', VStrings [''18'', ''30'']) # [(''lt'', VInt 99)])
   = ([CWhere ''age >= ?'' [VInt 1], CWhere ''age < ?'' [VInt 99]], zero_Filter)
   \<and> applyComplexCondition sample_env zero_Filter [] ''age''
     ([(''gte'', VInt 1)] @ (''between'', VSlice [VInt 18, VInt 30]) # [(''lt'', VInt 99)])
   = ([CWhere ''age >= ?'' [VInt 1], CWhere ''age BETWEEN ? AND ?'' [VInt 18, VInt 30],
       CWhere ''age < ?'' [VInt 99]], zero_Filter)"
proof -
  note t = between_needs_a_generic_pair [of "VStrings [''18'', ''30'']" sample_env zero_Filter
      "[]" "''age''" "[(''gte'', VInt 1)]" "[(''lt'', VInt 99)]" "VInt 18" "VInt 30"]
  have h: "\<forall>a b. VStrings [''18'', ''30''] \<noteq> VSlice [a, b]" by simp
  have e1: "applyComplexCondition sample_env zero_Filter [] ''age''
       ([(''gte'', VInt 1)] @ [(''lt'', VInt 99)])
     = ([CWhere ''age >= ?'' [VInt 1], CWhere ''age < ?'' [VInt 99]], zero_Filter)"
    by code_simp
  have e2: "(case applyComplexCondition sample_env zero_Filter [] ''age'' [(''gte'', VInt 1)] of
            (db1, f1) \<Rightarrow>
              applyComplexCondition sample_env
                (recordSQL sample_env f1 (''BETWEEN '' @ ''age'') (VSlice [VInt 18, VInt 30]))
                (db1 @ [CWhere (''age'' @ '' BETWEEN ? AND ?'') [VInt 18, VInt 30]]) ''age''
                [(''lt'', VInt 99)])
     = ([CWhere ''age >= ?'' [VInt 1], CWhere ''age BETWEEN ? AND ?'' [VInt 18, VInt 30],
       CWhere ''age < ?'' [VInt 99]], zero_Filter)"
    by code_simp
  from mp [OF conjunct1 [OF t] h] have c1: "applyComplexCondition sample_env zero_Filter [] ''age''
     ([(''gte'', VInt 1)] @ (''between'', VStrings [''18'', ''30'']) # [(''lt'', VInt 99)])
   = ([CWhere ''age >= ?'' [VInt 1], CWhere ''age < ?'' [VInt 99]], zero_Filter)"
    by (simp only: e1)
  from conjunct2 [OF t] have c2: "applyComplexCondition sample_env zero_Filter [] ''age''
     ([(''gte'', VInt 1)] @ (''between'', VSlice [VInt 18, VInt 30]) # [(''lt'', VInt 99)])
   = ([CWhere ''age >= ?'' [VInt 1], CWhere ''age BETWEEN ? AND ?'' [VInt 18, VInt 30],
       CWhere ''age < ?'' [VInt 99]], zero_Filter)"
    by (simp only: e2)
  from c1 c2 show ?thesis by (intro conjI)
qed

subsection \<open>What the pipeline changes in the Filter\<close>

text \<open>
  C10. ApplySortAndPagination writes the clamped values back into the Filter: the page of
  the Filter it returns is the caller's page clamped (1 for a page of 0 or less, the
  caller's page otherwise) and its page size is the caller's page size clamped (10 for 0
  or less, 500 for more than 500, the caller's otherwise), so the page is at least 1 and
  the page size between 1 and 500; in every field but \<open>Page\<close>, \<open>PageSize\<close>,
  \<open>sqlRecords\<close> and \<open>finalSQL\<close> it equals the Filter it was given. PaginationQuery
  changes \<open>sqlRecords\<close> only. So the Filter after QueryWithFilter, and the Filter after a
  QueryWithPagination whose count is not zero, hold the clamped values of the caller's, and
  after either listing call every other field is the caller's; a QueryWithPagination that
  does not reach the stage leaves page and page size as the caller gave them.
\<close>

theorem pagination_written_back_into_Filter:
  "(ApplySortAndPagination L f db = (db', g) \<longrightarrow>
      Page g = effective_page (Page f) \<and> PageSize g = effective_pageSize (PageSize f)
      \<and> 1 \<le> sint (Page g) \<and> 1 \<le> sint (PageSize g) \<and> sint (PageSize g) \<le> 500
      \<and> g = f\<lparr>Page := Page g, PageSize := PageSize g, sqlRecords := sqlRecords g,
               finalSQL := finalSQL g\<rparr>)
   \<and> (PaginationQuery L f db = (db', g) \<longrightarrow> g = f\<lparr>sqlRecords := sqlRecords g\<rparr>)
   \<and> (QueryWithFilter L E cs db f = (r, g, cs') \<longrightarrow>
      Page g = effective_page (Page f) \<and> PageSize g = effective_pageSize (PageSize f)
      \<and> 1 \<le> sint (Page g) \<and> 1 \<le> sint (PageSize g) \<and> sint (PageSize g) \<le> 500
      \<and> g = f\<lparr>Page := Page g, PageSize := PageSize g, sqlRecords := sqlRecords g,
               finalSQL := finalSQL g\<rparr>)
   \<and> (QueryWithPagination L E cs db f = (pr, g, cs') \<longrightarrow>
      g = f\<lparr>Page := Page g, PageSize := PageSize g, sqlRecords := sqlRecords g,
             finalSQL := finalSQL g\<rparr>
      \<and> (if \<exists>c. count_reply E cs (fst (PaginationQuery L f (db @ [CModel]))) = Inr c \<and> c \<noteq> 0
         then Page g = effective_page (Page f) \<and> PageSize g = effective_pageSize (PageSize f)
              \<and> 1 \<le> sint (Page g) \<and> 1 \<le> sint (PageSize g) \<and> sint (PageSize g) \<le> 500
         else g = f\<lparr>sqlRecords := sqlRecords g\<rparr>))"
proof -
  have A: "Page g = effective_page (Page f) \<and> PageSize g = effective_pageSize (PageSize f)
      \<and> 1 \<le> sint (Page g) \<and> 1 \<le> sint (PageSize g) \<and> sint (PageSize g) \<le> 500
      \<and> g = f\<lparr>Page := Page g, PageSize := PageSize g, sqlRecords := sqlRecords g,
               finalSQL := finalSQL g\<rparr>"
    if "ApplySortAndPagination L f db = (db', g)"
    using ApplySortAndPagination_Filter [OF that] clamped_frame by blast
  have B: "g = f\<lparr>sqlRecords := sqlRecords g\<rparr>" if "PaginationQuery L f db = (db', g)"
    using that PaginationQuery_plan_trace [of L f db] by (simp add: trace_changed_def)
  obtain db1 f1 where p: "PaginationQuery L f (db @ [CModel]) = (db1, f1)"
    by (cases "PaginationQuery L f (db @ [CModel])")
  obtain db2 f2 where a: "ApplySortAndPagination L f1 db1 = (db2, f2)"
    by (cases "ApplySortAndPagination L f1 db1")
  from p PaginationQuery_plan_trace [of L f "db @ [CModel]"] have "trace_changed f f1" by simp
  then obtain tr1 where f1: "f1 = f\<lparr>sqlRecords := tr1\<rparr>" by (auto simp: trace_changed_iff)
  have f2: "Page f2 = effective_page (Page f) \<and> PageSize f2 = effective_pageSize (PageSize f)
      \<and> 1 \<le> sint (Page f2) \<and> 1 \<le> sint (PageSize f2) \<and> sint (PageSize f2) \<le> 500
      \<and> f2 = f\<lparr>Page := Page f2, PageSize := PageSize f2, sqlRecords := sqlRecords f2,
               finalSQL := finalSQL f2\<rparr>"
    using pipeline_Filter [OF p a] clamped_frame by blast
  have C: "Page g = effective_page (Page f) \<and> PageSize g = effective_pageSize (PageSize f)
      \<and> 1 \<le> sint (Page g) \<and> 1 \<le> sint (PageSize g) \<and> sint (PageSize g) \<le> 500
      \<and> g = f\<lparr>Page := Page g, PageSize := PageSize g, sqlRecords := sqlRecords g,
               finalSQL := finalSQL g\<rparr>"
    if "QueryWithFilter L E cs db f = (r, g, cs')"
  proof -
    from QueryWithFilter_unfold [OF p a, of E cs] that have ge: "g = f2" by simp
    show ?thesis unfolding ge by (rule f2)
  qed
  have D: "g = f\<lparr>Page := Page g, PageSize := PageSize g, sqlRecords := sqlRecords g,
             finalSQL := finalSQL g\<rparr>
      \<and> (if \<exists>c. count_reply E cs (fst (PaginationQuery L f (db @ [CModel]))) = Inr c \<and> c \<noteq> 0
         then Page g = effective_page (Page f) \<and> PageSize g = effective_pageSize (PageSize f)
              \<and> 1 \<le> sint (Page g) \<and> 1 \<le> sint (PageSize g) \<and> sint (PageSize g) \<le> 500
         else g = f\<lparr>sqlRecords := sqlRecords g\<rparr>)"
    if q: "QueryWithPagination L E cs db f = (pr, g, cs')"
  proof (cases "count_reply E cs db1 = Inr 0 \<or> (\<exists>e. count_reply E cs db1 = Inl e)")
    case True
    then obtain e where "count_reply E cs db1 = Inl e \<or> count_reply E cs db1 = Inr 0"
      by blast
    from QueryWithPagination_early [OF p this] q have "g = f1" by simp
    then have "g = f\<lparr>Page := Page g, PageSize := PageSize g, sqlRecords := sqlRecords g,
             finalSQL := finalSQL g\<rparr>" and "g = f\<lparr>sqlRecords := sqlRecords g\<rparr>"
      by (simp_all add: f1)
    moreover from True have "\<not> (\<exists>c. count_reply E cs db1 = Inr c \<and> c \<noteq> 0)" by auto
    ultimately show ?thesis by (simp only: p fst_conv simp_thms if_False)
  next
    case False
    then obtain c where c: "count_reply E cs db1 = Inr c" "c \<noteq> 0"
      by (cases "count_reply E cs db1") auto
    then have r: "\<exists>c. count_reply E cs db1 = Inr c \<and> c \<noteq> 0" by blast
    then have r': "(\<exists>c. count_reply E cs (fst (PaginationQuery L f (db @ [CModel]))) = Inr c
        \<and> c \<noteq> 0) = True"
      by (simp only: p fst_conv)
    from QueryWithPagination_fetch [OF p c a] q have ge: "g = f2" by simp
    from f2 have "f2 = f\<lparr>Page := Page f2, PageSize := PageSize f2, sqlRecords := sqlRecords f2,
             finalSQL := finalSQL f2\<rparr>"
      and "Page f2 = effective_page (Page f) \<and> PageSize f2 = effective_pageSize (PageSize f)
              \<and> 1 \<le> sint (Page f2) \<and> 1 \<le> sint (PageSize f2) \<and> sint (PageSize f2) \<le> 500"
      by blast+
    then show ?thesis unfolding ge r' if_True by (rule conjI)
  qed
  show ?thesis
    by (intro conjI)
      (rule impI, erule A, rule impI, erule B, rule impI, erule C, rule impI, erule D)
qed

theorem pagination_written_back_witness:
  "ApplySortAndPagination sample_env unclamped_Filter [] =
     ([COrder ''id ASC'', COffset 0, CLimit 500], unclamped_Filter\<lparr>Page := 1, PageSize := 500\<rparr>)
   \<and> Page (unclamped_Filter\<lparr>Page := 1, PageSize := 500\<rparr>) = effective_page (Page unclamped_Filter)
   \<and> PageSize (unclamped_Filter\<lparr>Page := 1, PageSize := 500\<rparr>)
       = effective_pageSize (PageSize unclamped_Filter)
   \<and> 1 \<le> sint (Page (unclamped_Filter\<lparr>Page := 1, PageSize := 500\<rparr>))
   \<and> 1 \<le> sint (PageSize (unclamped_Filter\<lparr>Page := 1, PageSize := 500\<rparr>))
   \<and> sint (PageSize (unclamped_Filter\<lparr>Page := 1, PageSize := 500\<rparr>)) \<le> 500
   \<and> Page unclamped_Filter = - 3 \<and> PageSize unclamped_Filter = 1000
   \<and> effective_page (- 3) = 1 \<and> effective_pageSize 1000 = 500
   \<and> ApplySortAndPagination sample_env sample_Filter [] =
       ([COrder ''created_at DESC'', COrder ''id ASC'', COffset 20, CLimit 20], sample_Filter)
   \<and> Page sample_Filter = effective_page (Page sample_Filter)
   \<and> PageSize sample_Filter = effective_pageSize (PageSize sample_Filter)
   \<and> Page sample_Filter = 2 \<and> PageSize sample_Filter = 20
   \<and> PaginationQuery sample_env unclamped_Filter [] = ([], unclamped_Filter)
   \<and> QueryWithFilter sample_env (table_engine [7, 8, 9 :: nat]) [] [] unclamped_Filter =
       ((Some [7, 8, 9], None), unclamped_Filter\<lparr>Page := 1, PageSize := 500\<rparr>,
        [Find [CModel, COrder ''id ASC'', COffset 0, CLimit 500]])
   \<and> QueryWithPagination sample_env (table_engine [7, 8, 9 :: nat]) [] [] unclamped_Filter =
       (\<lparr>res_rows = Some [7, 8, 9], res_total = 3, res_page = 1, res_pageSize = 500,
         res_err = None\<rparr>, unclamped_Filter\<lparr>Page := 1, PageSize := 500\<rparr>,
        [Count [CModel], Find [CModel, COrder ''id ASC'', COffset 0, CLimit 500]])
   \<and> count_reply (table_engine [7, 8, 9 :: nat]) []
         (fst (PaginationQuery sample_env unclamped_Filter ([] @ [CModel]))) = Inr 3"
proof -
  have h1: "ApplySortAndPagination sample_env unclamped_Filter [] =
     ([COrder ''id ASC'', COffset 0, CLimit 500], unclamped_Filter\<lparr>Page := 1, PageSize := 500\<rparr>)"
    by code_simp
  have hs: "ApplySortAndPagination sample_env sample_Filter [] =
       ([COrder ''created_at DESC'', COrder ''id ASC'', COffset 20, CLimit 20], sample_Filter)"
    by code_simp
  have h2: "PaginationQuery sample_env unclamped_Filter [] = ([], unclamped_Filter)"
    by code_simp
  have h3: "QueryWithFilter sample_env (table_engine [7, 8, 9 :: nat]) [] [] unclamped_Filter =
       ((Some [7, 8, 9], None), unclamped_Filter\<lparr>Page := 1, PageSize := 500\<rparr>,
        [Find [CModel, COrder ''id ASC'', COffset 0, CLimit 500]])"
    by code_simp
  have h4: "QueryWithPagination sample_env (table_engine [7, 8, 9 :: nat]) [] []
       unclamped_Filter =
       (\<lparr>res_rows = Some [7, 8, 9], res_total = 3, res_page = 1, res_pageSize = 500,
         res_err = None\<rparr>, unclamped_Filter\<lparr>Page := 1, PageSize := 500\<rparr>,
        [Count [CModel], Find [CModel, COrder ''id ASC'', COffset 0, CLimit 500]])"
    by code_simp
  have h5: "count_reply (table_engine [7, 8, 9 :: nat]) []
         (fst (PaginationQuery sample_env unclamped_Filter ([] @ [CModel]))) = Inr 3"
    by (simp add: table_engine_def)
  have v: "Page unclamped_Filter = - 3" "PageSize unclamped_Filter = 1000"
    "effective_page (- 3) = 1" "effective_pageSize 1000 = 500"
    "Page sample_Filter = 2" "PageSize sample_Filter = 20"
    by (simp_all add: unclamped_Filter_def sample_Filter_def zero_Filter_def effective_page_def
        effective_pageSize_def)
  note t = pagination_written_back_into_Filter
    [of sample_env unclamped_Filter "[]" "[COrder ''id ASC'', COffset 0, CLimit 500]"
      "unclamped_Filter\<lparr>Page := 1, PageSize := 500\<rparr>"]
  note ts = pagination_written_back_into_Filter
    [of sample_env sample_Filter "[]"
      "[COrder ''created_at DESC'', COrder ''id ASC'', COffset 20, CLimit 20]" sample_Filter]
  from mp [OF conjunct1 [OF t] h1]
  have b: "Page (unclamped_Filter\<lparr>Page := 1, PageSize := 500\<rparr>)
       = effective_page (Page unclamped_Filter)
   \<and> PageSize (unclamped_Filter\<lparr>Page := 1, PageSize := 500\<rparr>)
       = effective_pageSize (PageSize unclamped_Filter)
   \<and> 1 \<le> sint (Page (unclamped_Filter\<lparr>Page := 1, PageSize := 500\<rparr>))
   \<and> 1 \<le> sint (PageSize (unclamped_Filter\<lparr>Page := 1, PageSize := 500\<rparr>))
   \<and> sint (PageSize (unclamped_Filter\<lparr>Page := 1, PageSize := 500\<rparr>)) \<le> 500"
    by (elim conjE) (intro conjI)
  from mp [OF conjunct1 [OF ts] hs]
  have c: "Page sample_Filter = effective_page (Page sample_Filter)
   \<and> PageSize sample_Filter = effective_pageSize (PageSize sample_Filter)"
    by (elim conjE) (intro conjI)
  note b1 = conjunct1 [OF b]
  note b2 = conjunct1 [OF conjunct2 [OF b]]
  note b3 = conjunct1 [OF conjunct2 [OF conjunct2 [OF b]]]
  note b4 = conjunct1 [OF conjunct2 [OF conjunct2 [OF conjunct2 [OF b]]]]
  note b5 = conjunct2 [OF conjunct2 [OF conjunct2 [OF conjunct2 [OF b]]]]
  note c1 = conjunct1 [OF c]
  note c2 = conjunct2 [OF c]
  from h1 b1 b2 b3 b4 b5 v(1-4) hs c1 c2 v(5,6) h2 h3 h4 h5 show ?thesis
    by (intro conjI)
qed

end
